theory Spec2Isabelle
  imports Complex_Main
begin

section \<open>Strings\<close>

text \<open>
  Messages are modelled as \<open>string\<close> (a list of 8-bit characters). The two string
  operations the server relies on are \<open>toLowerCase\<close> and \<open>includes\<close>. Lower-casing
  is modelled on the ASCII letters; every other character is left as it is. On ASCII text
  this is what JavaScript computes. On other text JavaScript differs: it counts UTF-16
  code units where the model counts bytes, and it lower-cases a few non-ASCII letters to
  ASCII ones (the Kelvin sign to \<open>k\<close>), so a keyword test or a \<open>slice\<close> can come out
  differently there.
\<close>

definition lower_char :: "char \<Rightarrow> char" where
  "lower_char c =
     (case map_of (zip ''ABCDEFGHIJKLMNOPQRSTUVWXYZ'' ''abcdefghijklmnopqrstuvwxyz'') c of
        Some d \<Rightarrow> d
      | None \<Rightarrow> c)"

definition toLowerCase :: "string \<Rightarrow> string" where
  "toLowerCase s = map lower_char s"

fun startsWith :: "string \<Rightarrow> string \<Rightarrow> bool" where
  "startsWith t [] = True"
| "startsWith [] (c # w) = False"
| "startsWith (a # t) (c # w) = (a = c \<and> startsWith t w)"

text \<open>\<open>t.includes(w)\<close>: \<open>w\<close> occurs in \<open>t\<close> as a contiguous substring.\<close>

fun str_includes :: "string \<Rightarrow> string \<Rightarrow> bool" where
  "str_includes [] w = (w = [])"
| "str_includes (a # t) w = (startsWith (a # t) w \<or> str_includes t w)"

text \<open>\<open>words.some((w) => t.includes(w))\<close>\<close>

definition some_included :: "string list \<Rightarrow> string \<Rightarrow> bool" where
  "some_included ws t = list_ex (str_includes t) ws"

text \<open>\<open>s.slice(0, n)\<close> for a non-negative \<open>n\<close>.\<close>

definition slice0 :: "nat \<Rightarrow> 'a list \<Rightarrow> 'a list" where
  "slice0 n s = take n s"


section \<open>Sentiment classifier (sentiment.js)\<close>

text \<open>
  JavaScript numbers are modelled as mathematical reals throughout: sums, products,
  quotients and square roots are exact. The constants \<open>0.6\<close>, \<open>0.3\<close>, \<open>0.8\<close> of
  the source are the corresponding decimal fractions. The source adds doubles, so a sum
  that lands exactly on a threshold here can fall beside it there; the sums of the texts
  evaluated below (\<open>0.6\<close>, \<open>1.2\<close>, \<open>-3.6\<close>) are the same in both.
\<close>

datatype mood = Angry | Neutral | Cool

record sentiment =
  label :: mood
  score :: real

definition ANGER_WORDS :: "string list" where
  "ANGER_WORDS =
     [''angry'', ''furious'', ''frustrated'', ''worst'', ''nonsense'', ''cheated'',
      ''wtf'', ''hate'', ''mad'', ''ridiculous'', ''disgusting'', ''scam'', ''fraud'',
      ''terrible'', ''immediately'']"

definition CALM_WORDS :: "string list" where
  "CALM_WORDS =
     [''please'', ''thank'', ''thanks'', ''could you'', ''may i'', ''no hurry'',
      ''whenever'', ''take your time'', ''ok'', ''cool'', ''fine'']"

text \<open>The value of the variable \<open>score\<close> when the label is chosen (before clamping).\<close>

definition raw_score :: "string \<Rightarrow> real" where
  "raw_score text =
     (let t = toLowerCase text;
          s1 = fold (\<lambda>w s. if str_includes t w then s - 1 else s) ANGER_WORDS 0;
          s2 = fold (\<lambda>w s. if str_includes t w then s + 6 / 10 else s) CALM_WORDS s1;
          s3 = (if str_includes t ''!!!'' \<or> str_includes t ''?!?!'' then s2 - 6 / 10 else s2);
          s4 = (if str_includes t '':)'' then s3 + 3 / 10 else s3);
          s5 = (if str_includes t '':('' then s4 - 3 / 10 else s4)
      in s5)"

definition label_of_score :: "real \<Rightarrow> mood" where
  "label_of_score s = (if s \<le> - (8 / 10) then Angry else if s \<ge> 6 / 10 then Cool else Neutral)"

definition analyzeSentiment :: "string \<Rightarrow> sentiment" where
  "analyzeSentiment text =
     (let s = raw_score text
      in \<lparr>label = label_of_score s, score = max (- 1) (min 1 s)\<rparr>)"


section \<open>SLA calculator (sla.js)\<close>

datatype priority = High | Low

datatype sla_level = Express | Standard | Batched

record sla =
  level :: sla_level
  targetMinutes :: real

text \<open>
  The three environment variables read by \<open>computeSLA\<close>; \<open>None\<close> is an unset variable,
  \<open>Some x\<close> a variable whose text \<open>Number\<close> parses to \<open>x\<close>.
\<close>

record sla_env =
  SLA_FAST_MIN :: "real option"
  SLA_STD_MIN :: "real option"
  SLA_SLOW_MIN :: "real option"

definition sla_defaults :: sla_env where
  "sla_defaults = \<lparr>SLA_FAST_MIN = None, SLA_STD_MIN = None, SLA_SLOW_MIN = None\<rparr>"

text \<open>\<open>Number(v ?? d)\<close>\<close>

definition env_number :: "real option \<Rightarrow> real \<Rightarrow> real" where
  "env_number v d = (case v of None \<Rightarrow> d | Some x \<Rightarrow> x)"

text \<open>
  The argument object is destructured with defaults: a missing \<open>priority\<close> is \<open>"low"\<close>, a
  missing \<open>sentiment\<close> is \<open>"neutral"\<close>.
\<close>

definition computeSLA :: "sla_env \<Rightarrow> priority option \<Rightarrow> mood option \<Rightarrow> sla" where
  "computeSLA e p s =
     (let priority = (case p of None \<Rightarrow> Low | Some x \<Rightarrow> x);
          sentiment = (case s of None \<Rightarrow> Neutral | Some x \<Rightarrow> x);
          FAST = env_number (SLA_FAST_MIN e) 15;
          STD = env_number (SLA_STD_MIN e) 60;
          SLOW = env_number (SLA_SLOW_MIN e) 180
      in if sentiment = Angry then \<lparr>level = Express, targetMinutes = FAST\<rparr>
         else if priority = High then \<lparr>level = Express, targetMinutes = FAST\<rparr>
         else if sentiment = Cool then \<lparr>level = Batched, targetMinutes = SLOW\<rparr>
         else \<lparr>level = Standard, targetMinutes = STD\<rparr>)"


section \<open>Cosine similarity (faqService.js, caseMemory.js)\<close>

text \<open>
  The two functions are written here in exact real arithmetic. The source computes in
  IEEE-754 doubles, whose results differ from the exact ones by rounding, overflow and
  underflow; nothing is stated below about the numeric value of a similarity except on
  the unit vector \<open>[1, 0]\<close> of the example corpus, where every product, sum, square root
  and quotient is exact in doubles as well.
\<close>

text \<open>
  \<open>xs[i]\<close> on a JavaScript array: \<open>None\<close> stands for \<open>undefined\<close>, the value of a read
  past the end.
\<close>

definition js_index :: "'a list \<Rightarrow> nat \<Rightarrow> 'a option" where
  "js_index xs i = (if i < length xs then Some (xs ! i) else None)"

text \<open>\<open>v || 0\<close> on a number or \<open>undefined\<close>.\<close>

definition or0 :: "real option \<Rightarrow> real" where
  "or0 v = (case v of None \<Rightarrow> 0 | Some x \<Rightarrow> x)"

text \<open>The indices visited by \<open>for (let i = 0; i < n; i++)\<close> with \<open>n = Math.min(a.length, b.length)\<close>.\<close>

definition cosine_range :: "real list \<Rightarrow> real list \<Rightarrow> nat list" where
  "cosine_range a b = [0..<min (length a) (length b)]"

text \<open>One iteration of the loop body on the accumulators \<open>(dot, na, nb)\<close>.\<close>

definition cosine_step :: "real list \<Rightarrow> real list \<Rightarrow> nat \<Rightarrow> real \<times> real \<times> real \<Rightarrow> real \<times> real \<times> real" where
  "cosine_step a b i acc =
     (case acc of (dot, na, nb) \<Rightarrow>
        (let ai = or0 (js_index a i); bi = or0 (js_index b i)
         in (dot + ai * bi, na + ai * ai, nb + bi * bi)))"

definition cosineSimilarity :: "real list \<Rightarrow> real list \<Rightarrow> real" where
  "cosineSimilarity a b =
     (case fold (cosine_step a b) (cosine_range a b) (0, 0, 0) of (dot, na, nb) \<Rightarrow>
        if na = 0 \<or> nb = 0 then 0 else dot / (sqrt na * sqrt nb))"

text \<open>The private copy of the same function in caseMemory.js.\<close>

definition cosine :: "real list \<Rightarrow> real list \<Rightarrow> real" where
  "cosine a b =
     (case fold (cosine_step a b) (cosine_range a b) (0, 0, 0) of (dot, na, nb) \<Rightarrow>
        if na = 0 \<or> nb = 0 then 0 else dot / (sqrt na * sqrt nb))"



section \<open>Data model (server.js, faqService.js, caseMemory.js)\<close>

type_synonym user_id = nat
type_synonym case_id = nat
type_synonym order_id = string
type_synonym time = nat

datatype domain = ECommerce | Travel | Telecommunications | BankingServices

datatype status = Open | InProgress | Resolved

datatype role = UserRole | AdminRole

record response =
  r_adminId :: "user_id option"
  r_message :: string
  r_timestamp :: time

text \<open>
  A document of the \<open>Case\<close> collection. The \<open>productChanges\<close> sub-document is not touched by
  the operations modelled here and is left out.
\<close>

record case_doc =
  c_id :: case_id
  c_userId :: user_id
  c_orderId :: order_id
  c_productIndex :: nat
  c_description :: string
  c_domain :: domain
  c_priority :: priority
  c_status :: status
  c_responses :: "response list"
  c_createdAt :: time
  c_updatedAt :: time

record user =
  u_name :: string
  u_email :: string
  u_role :: role

text \<open>The JSON object stored under \<open>selected-product:<userId>\<close>.\<close>

record selected_product =
  sp_orderId :: order_id
  sp_productIndex :: nat
  sp_name :: string
  sp_quantity :: nat
  sp_price :: nat
  sp_domain :: domain
  sp_status :: string

record faq =
  f_question :: string
  f_answer :: string
  f_domain :: domain
  f_embedding :: "real list"

record case_memory =
  m_caseId :: case_id
  m_orderId :: order_id
  m_productIndex :: nat
  m_summary :: string
  m_domain :: domain
  m_embedding :: "real list"
  m_createdAt :: time

datatype source_tag = SrcUser | SrcRefund | SrcFaq | SrcCaseMemory | SrcLlm | SrcAgent

text \<open>
  One entry of the Redis list \<open>chat:<userId>:<orderId>:<productIndex>\<close>. A field the
  source leaves out of the stored object is \<open>None\<close>; \<open>t_reply = None\<close> is the stored
  \<open>reply: null\<close>, \<open>t_caseId = None\<close> the stored \<open>caseId: null\<close>.
\<close>

record chat_turn =
  t_prompt :: string
  t_reply :: "string option"
  t_orderId :: order_id
  t_productIndex :: nat
  t_caseId :: "case_id option"
  t_timestamp :: time
  t_source :: "source_tag option"
  t_score :: "real option"

datatype room = UserRoom user_id | CaseRoom case_id | AgentsRoom

text \<open>Socket.IO events: \<open>chat:reply\<close>, \<open>chat:user\<close>, \<open>case:status\<close>, \<open>case:message\<close>.\<close>

datatype event =
    ChatReply user_id order_id nat "case_id option" source_tag string time
  | ChatUser user_id order_id nat case_id string time
  | CaseStatus case_id status
  | CaseMessage case_id string time

text \<open>The grounding data from which the generative prompt text is assembled.\<close>

record prompt =
  p_domain :: domain
  p_userName :: string
  p_userEmail :: string
  p_productName :: string
  p_quantity :: nat
  p_price :: nat
  p_status :: string
  p_orderId :: order_id
  p_message :: string

text \<open>
  A log of the stage functions entered and of the requests sent to the two external
  HTTP services, in program order. It is not program state: it makes "was not
  consulted" a statement about a run, and it is the history the external services may
  depend on.
\<close>

datatype call =
    CheckFaq string "domain option"
  | SearchSimilarCases string "domain option" int
  | IndexCase case_id
  | CallGemini prompt
  | GetEmbedding string
  | GenerateContent string

datatype error =
    EmbeddingFailed
  | StoreError
  | GeminiInvalidRequest
  | GeminiAuthFailed
  | GeminiOtherError
  | GeminiExhausted

text \<open>
  The outcome of one \<open>generateContent\<close> request: the joined and trimmed candidate text
  (possibly empty), or a failure with the error code of the response body, if any.
\<close>

datatype gemini_outcome = Candidates string | ApiError "nat option"

text \<open>
  The environment: the external services and the configuration variables. The embedding
  service and the generative service answer as a function of the history of calls so far,
  so successive requests may succeed or fail independently. \<open>faq_find_fails\<close> and
  \<open>memory_store_fails\<close> say whether a query on the \<open>faqs\<close> or the \<open>CaseMemory\<close>
  collection throws. Queries on the \<open>User\<close> and \<open>Case\<close> collections, Redis commands and
  socket emits are taken to succeed. \<open>memory_reply\<close> is \<open>buildMemoryReply\<close> of
  formatCaseMemory.js applied to the summary, the order id and the product name.
\<close>

record env =
  embedding_api :: "call list \<Rightarrow> string \<Rightarrow> real list option"
  gemini_api :: "call list \<Rightarrow> string \<Rightarrow> prompt \<Rightarrow> gemini_outcome"
  faq_find_fails :: "call list \<Rightarrow> bool"
  memory_store_fails :: "call list \<Rightarrow> bool"
  memory_reply :: "string \<Rightarrow> order_id \<Rightarrow> string \<Rightarrow> string"
  FAQ_SIM_THRESHOLD :: "real option"
  FAQ_TOP_K :: "int option"
  SIM_TOP_K :: "int option"
  SIM_CASE_THRESHOLD :: "real option"
  sla_vars :: sla_env

type_synonym chat_key = "user_id \<times> order_id \<times> nat"

text \<open>
  The state: the Mongo collections, the Redis keys with their expiry instants, the events
  emitted so far and the call log. \<open>next_id\<close> is the source of fresh \<open>_id\<close> values.
\<close>

record state =
  users :: "user_id \<rightharpoonup> user"
  cases :: "case_doc list"
  next_id :: nat
  faqs :: "faq list"
  memories :: "case_memory list"
  user_cache :: "user_id \<rightharpoonup> user \<times> time"
  selected :: "user_id \<rightharpoonup> selected_product \<times> time"
  agent_only :: "case_id \<rightharpoonup> string \<times> time"
  chats :: "chat_key \<rightharpoonup> chat_turn list \<times> time option"
  outbox :: "(room \<times> event) list"
  trace :: "call list"

text \<open>The results of the HTTP handlers modelled here.\<close>

datatype http =
    Http400 string
  | Http403 string
  | Http404 string
  | Http500 string
  | ChatQueued case_id
  | ChatEscalated string sla case_id
  | ChatFaq string real
  | ChatMemory string real "(case_id \<times> real) list"
  | ResponseAdded case_doc
  | AgentOnlyToggled bool case_id


section \<open>Redis commands\<close>

text \<open>A key set with \<open>EX ttl\<close> at instant \<open>now\<close> is readable strictly before \<open>now + ttl\<close>.\<close>

definition redis_get :: "('k \<rightharpoonup> 'v \<times> time) \<Rightarrow> 'k \<Rightarrow> time \<Rightarrow> 'v option" where
  "redis_get m k now =
     (case m k of None \<Rightarrow> None | Some (v, ex) \<Rightarrow> if now < ex then Some v else None)"

definition redis_set_ex :: "('k \<rightharpoonup> 'v \<times> time) \<Rightarrow> 'k \<Rightarrow> 'v \<Rightarrow> nat \<Rightarrow> time \<Rightarrow> ('k \<rightharpoonup> 'v \<times> time)" where
  "redis_set_ex m k v ttl now = m(k \<mapsto> (v, now + ttl))"

definition redis_del :: "('k \<rightharpoonup> 'v) \<Rightarrow> 'k \<Rightarrow> ('k \<rightharpoonup> 'v)" where
  "redis_del m k = m(k := None)"

definition list_live :: "'v list \<times> time option \<Rightarrow> time \<Rightarrow> bool" where
  "list_live e now = (case snd e of None \<Rightarrow> True | Some ex \<Rightarrow> now < ex)"

definition redis_rpush :: "('k \<rightharpoonup> 'v list \<times> time option) \<Rightarrow> 'k \<Rightarrow> 'v \<Rightarrow> time \<Rightarrow> ('k \<rightharpoonup> 'v list \<times> time option)" where
  "redis_rpush m k v now =
     (case m k of
        None \<Rightarrow> m(k \<mapsto> ([v], None))
      | Some e \<Rightarrow> if list_live e now then m(k \<mapsto> (fst e @ [v], snd e)) else m(k \<mapsto> ([v], None)))"

definition redis_expire :: "('k \<rightharpoonup> 'v list \<times> time option) \<Rightarrow> 'k \<Rightarrow> nat \<Rightarrow> time \<Rightarrow> ('k \<rightharpoonup> 'v list \<times> time option)" where
  "redis_expire m k ttl now =
     (case m k of
        None \<Rightarrow> m
      | Some e \<Rightarrow> if list_live e now then m(k \<mapsto> (fst e, Some (now + ttl))) else m)"

text \<open>\<open>lRange(key, 0, -1)\<close> at instant \<open>now\<close>: the entries of a live list, nothing otherwise.\<close>

definition redis_lrange :: "('k \<rightharpoonup> 'v list \<times> time option) \<Rightarrow> 'k \<Rightarrow> time \<Rightarrow> 'v list" where
  "redis_lrange m k now =
     (case m k of None \<Rightarrow> [] | Some e \<Rightarrow> if list_live e now then fst e else [])"

text \<open>\<open>rPush(chatKey, turn)\<close> followed by \<open>expire(chatKey, 86400)\<close>.\<close>

definition push_turn :: "chat_key \<Rightarrow> chat_turn \<Rightarrow> time \<Rightarrow> state \<Rightarrow> state" where
  "push_turn k t now st =
     st\<lparr>chats := redis_expire (redis_rpush (chats st) k t now) k 86400 now\<rparr>"

definition emit :: "room \<Rightarrow> event \<Rightarrow> state \<Rightarrow> state" where
  "emit r e st = st\<lparr>outbox := outbox st @ [(r, e)]\<rparr>"

definition log_call :: "call \<Rightarrow> state \<Rightarrow> state" where
  "log_call c st = st\<lparr>trace := trace st @ [c]\<rparr>"


section \<open>Agent-only lock helpers (server.js)\<close>

text \<open>
  The helpers take the case id as the handlers pass it; \<open>None\<close> is a falsy argument.
\<close>

definition AGENT_ONLY_TTL :: nat where
  "AGENT_ONLY_TTL = 30 * 60"

definition setAgentOnly :: "case_id option \<Rightarrow> time \<Rightarrow> state \<Rightarrow> state" where
  "setAgentOnly caseId now st =
     (case caseId of
        None \<Rightarrow> st
      | Some i \<Rightarrow> st\<lparr>agent_only := redis_set_ex (agent_only st) i ''1'' AGENT_ONLY_TTL now\<rparr>)"

definition isAgentOnly :: "case_id option \<Rightarrow> time \<Rightarrow> state \<Rightarrow> bool" where
  "isAgentOnly caseId now st =
     (case caseId of
        None \<Rightarrow> False
      | Some i \<Rightarrow> (case redis_get (agent_only st) i now of None \<Rightarrow> False | Some v \<Rightarrow> v \<noteq> []))"

definition clearAgentOnly :: "case_id option \<Rightarrow> state \<Rightarrow> state" where
  "clearAgentOnly caseId st =
     (case caseId of
        None \<Rightarrow> st
      | Some i \<Rightarrow> st\<lparr>agent_only := redis_del (agent_only st) i\<rparr>)"


section \<open>Embedding, FAQ matcher and case memory (faqService.js, caseMemory.js)\<close>

text \<open>
  Functions that can throw return \<open>error + 'a\<close> (\<open>Inl\<close> is the thrown error) with the
  new state. \<open>getEmbedding\<close> throws when the request to the embedding service fails.
\<close>

definition getEmbedding :: "env \<Rightarrow> string \<Rightarrow> state \<Rightarrow> (error + real list) \<times> state" where
  "getEmbedding e text st =
     (case embedding_api e (trace st) text of
        None \<Rightarrow> (Inl EmbeddingFailed, log_call (GetEmbedding text) st)
      | Some v \<Rightarrow> (Inr v, log_call (GetEmbedding text) st))"

text \<open>\<open>xs.slice(0, k)\<close> for an integer \<open>k\<close>: a negative \<open>k\<close> counts from the end.\<close>

definition js_slice_to :: "int \<Rightarrow> 'a list \<Rightarrow> 'a list" where
  "js_slice_to k xs = (if 0 \<le> k then take (nat k) xs else take (length xs - nat (- k)) xs)"

text \<open>
  \<open>xs.sort((a, b) => b.score - a.score)\<close>: a stable sort by descending score.
\<close>

definition sort_by_score_desc :: "('a \<times> real) list \<Rightarrow> ('a \<times> real) list" where
  "sort_by_score_desc xs = sort_key (\<lambda>x. - snd x) xs"

text \<open>\<open>Model.find(domain ? { domain } : {})\<close>\<close>

definition matches_filter :: "domain option \<Rightarrow> domain \<Rightarrow> bool" where
  "matches_filter f d = (case f of None \<Rightarrow> True | Some x \<Rightarrow> d = x)"

definition Faq_find :: "env \<Rightarrow> domain option \<Rightarrow> state \<Rightarrow> error + faq list" where
  "Faq_find e dmn st =
     (if faq_find_fails e (trace st) then Inl StoreError
      else Inr (filter (\<lambda>f. matches_filter dmn (f_domain f)) (faqs st)))"

record faq_hit =
  answer :: string
  hit_score :: real

text \<open>The body of the \<open>try\<close> block of \<open>checkFaq\<close>.\<close>

definition checkFaq_try :: "env \<Rightarrow> string \<Rightarrow> domain option \<Rightarrow> state \<Rightarrow> (error + faq_hit option) \<times> state" where
  "checkFaq_try e message dmn st =
     (let THRESH = env_number (FAQ_SIM_THRESHOLD e) (76 / 100);
          TOPK = (case FAQ_TOP_K e of None \<Rightarrow> 3 | Some k \<Rightarrow> k)
      in case getEmbedding e (slice0 512 message) st of
           (Inl err, st1) \<Rightarrow> (Inl err, st1)
         | (Inr queryEmbedding, st1) \<Rightarrow>
             (case Faq_find e dmn st1 of
                Inl err \<Rightarrow> (Inl err, st1)
              | Inr fs \<Rightarrow>
                  (let ranked = js_slice_to TOPK (sort_by_score_desc
                         (map (\<lambda>f. (f_answer f, cosineSimilarity queryEmbedding (f_embedding f))) fs))
                   in case js_index ranked 0 of
                        None \<Rightarrow> (Inr None, st1)
                      | Some best \<Rightarrow>
                          if snd best \<ge> THRESH
                          then (Inr (Some \<lparr>answer = fst best, hit_score = snd best\<rparr>), st1)
                          else (Inr None, st1))))"

text \<open>\<open>checkFaq\<close>: the \<open>try\<close> block and its \<open>catch\<close>, which logs and returns \<open>null\<close>.\<close>

definition checkFaq :: "env \<Rightarrow> string \<Rightarrow> domain option \<Rightarrow> state \<Rightarrow> (error + faq_hit option) \<times> state" where
  "checkFaq e message dmn st =
     (case checkFaq_try e message dmn (log_call (CheckFaq message dmn) st) of
        (Inl err, st1) \<Rightarrow> (Inr None, st1)
      | (Inr r, st1) \<Rightarrow> (Inr r, st1))"

definition CaseMemory_find :: "env \<Rightarrow> domain option \<Rightarrow> state \<Rightarrow> error + case_memory list" where
  "CaseMemory_find e dmn st =
     (if memory_store_fails e (trace st) then Inl StoreError
      else Inr (take 200 (filter (\<lambda>m. matches_filter dmn (m_domain m)) (memories st))))"

definition searchSimilarCases_try :: "env \<Rightarrow> string \<Rightarrow> domain option \<Rightarrow> int \<Rightarrow> state \<Rightarrow> (error + (case_memory \<times> real) list) \<times> state" where
  "searchSimilarCases_try e text dmn topK st =
     (case getEmbedding e (slice0 512 text) st of
        (Inl err, st1) \<Rightarrow> (Inl err, st1)
      | (Inr queryEmbedding, st1) \<Rightarrow>
          (case CaseMemory_find e dmn st1 of
             Inl err \<Rightarrow> (Inl err, st1)
           | Inr candidates \<Rightarrow>
               (Inr (js_slice_to topK (sort_by_score_desc
                   (map (\<lambda>c. (c, cosine queryEmbedding (m_embedding c))) candidates))), st1)))"

text \<open>\<open>searchSimilarCases\<close>: the \<open>catch\<close> logs and returns the empty array.\<close>

definition searchSimilarCases :: "env \<Rightarrow> string \<Rightarrow> domain option \<Rightarrow> int \<Rightarrow> state \<Rightarrow> (error + (case_memory \<times> real) list) \<times> state" where
  "searchSimilarCases e text dmn topK st =
     (case searchSimilarCases_try e text dmn topK (log_call (SearchSimilarCases text dmn topK) st) of
        (Inl err, st1) \<Rightarrow> (Inr [], st1)
      | (Inr r, st1) \<Rightarrow> (Inr r, st1))"

text \<open>
  \<open>CaseMemory.findOneAndUpdate({ caseId }, doc, { upsert: true })\<close>: the first record
  with that \<open>caseId\<close> takes the new field values; if there is none, the record is
  inserted.
\<close>

fun upsert_memory :: "case_memory \<Rightarrow> case_memory list \<Rightarrow> case_memory list" where
  "upsert_memory r [] = [r]"
| "upsert_memory r (m # ms) =
     (if m_caseId m = m_caseId r then r # ms else m # upsert_memory r ms)"

definition CaseMemory_findOneAndUpdate :: "env \<Rightarrow> case_memory \<Rightarrow> state \<Rightarrow> error + state" where
  "CaseMemory_findOneAndUpdate e r st =
     (if memory_store_fails e (trace st) then Inl StoreError
      else Inr (st\<lparr>memories := upsert_memory r (memories st)\<rparr>))"

text \<open>The text of an \<open>_id\<close> inside a template string, here its decimal digits.\<close>

definition digit_char :: "nat \<Rightarrow> char" where
  "digit_char d = (''0123456789'') ! d"

function id_text :: "nat \<Rightarrow> string" where
  "id_text n = (if n < 10 then [digit_char n] else id_text (n div 10) @ [digit_char (n mod 10)])"
  by pat_completeness auto
termination
  by (relation "measure id") auto

declare id_text.simps [simp del]

text \<open>
  The text that \<open>indexCase\<close> embeds and stores as summary:
  \<open>(caseDoc.description || "").slice(0, 512) || `Case ${caseDoc._id}`\<close>.
\<close>

definition index_text :: "case_doc \<Rightarrow> string" where
  "index_text caseDoc =
     (let d = slice0 512 (c_description caseDoc)
      in if d = [] then ''Case '' @ id_text (c_id caseDoc) else d)"

text \<open>The body of the \<open>try\<close> block of \<open>indexCase\<close>.\<close>

definition indexCase_try :: "env \<Rightarrow> time \<Rightarrow> case_doc \<Rightarrow> state \<Rightarrow> (error + unit) \<times> state" where
  "indexCase_try e now caseDoc st =
     (let text = index_text caseDoc
      in case getEmbedding e text st of
           (Inl err, st1) \<Rightarrow> (Inl err, st1)
         | (Inr embedding, st1) \<Rightarrow>
             (case CaseMemory_findOneAndUpdate e
                     \<lparr>m_caseId = c_id caseDoc, m_orderId = c_orderId caseDoc,
                      m_productIndex = c_productIndex caseDoc, m_summary = text,
                      m_domain = c_domain caseDoc, m_embedding = embedding, m_createdAt = now\<rparr> st1 of
                Inl err \<Rightarrow> (Inl err, st1)
              | Inr st2 \<Rightarrow> (Inr (), st2)))"

text \<open>
  \<open>indexCase\<close>: returns at once on a missing document; otherwise runs the \<open>try\<close> block
  and swallows its error. The result is the new state only.
\<close>

definition indexCase :: "env \<Rightarrow> time \<Rightarrow> case_doc option \<Rightarrow> state \<Rightarrow> state" where
  "indexCase e now caseDoc st =
     (case caseDoc of
        None \<Rightarrow> st
      | Some c \<Rightarrow> snd (indexCase_try e now c (log_call (IndexCase (c_id c)) st)))"


text \<open>
  The document \<open>indexCase\<close> passes to \<open>findOneAndUpdate\<close> for a case, given the
  embedding it obtained and the instant of the call.
\<close>

definition indexed_record :: "time \<Rightarrow> case_doc \<Rightarrow> real list \<Rightarrow> case_memory" where
  "indexed_record now caseDoc embedding =
     \<lparr>m_caseId = c_id caseDoc, m_orderId = c_orderId caseDoc,
      m_productIndex = c_productIndex caseDoc, m_summary = index_text caseDoc,
      m_domain = c_domain caseDoc, m_embedding = embedding, m_createdAt = now\<rparr>"

text \<open>
  A call of \<open>indexCase\<close> on a case in state \<open>st\<close> goes through when its embedding request
  is answered and its query on the \<open>CaseMemory\<close> collection does not throw.
\<close>

definition index_succeeds :: "env \<Rightarrow> case_doc \<Rightarrow> state \<Rightarrow> bool" where
  "index_succeeds e caseDoc st =
     (case embedding_api e (trace st @ [IndexCase (c_id caseDoc)]) (index_text caseDoc) of
        None \<Rightarrow> False
      | Some v \<Rightarrow>
          \<not> memory_store_fails e
              (trace st @ [IndexCase (c_id caseDoc), GetEmbedding (index_text caseDoc)]))"


section \<open>Generative fallback (server.js)\<close>

definition GEMINI_MODELS :: "string list" where
  "GEMINI_MODELS =
     [''gemini-2.0-flash'', ''gemini-2.5-pro'', ''gemini-2.5-flash'',
      ''gemini-2.5-flash-lite'', ''gemini-2.0-flash-lite'']"

text \<open>
  The loop of \<open>callGemini\<close> over the remaining models: a non-empty text is returned; an
  empty text and a quota error (429) go on to the next model; any other error is thrown;
  running out of models throws.
\<close>

fun callGemini_loop :: "env \<Rightarrow> prompt \<Rightarrow> string list \<Rightarrow> state \<Rightarrow> (error + string) \<times> state" where
  "callGemini_loop e p [] st = (Inl GeminiExhausted, st)"
| "callGemini_loop e p (model # rest) st =
     (let st1 = log_call (GenerateContent model) st
      in case gemini_api e (trace st) model p of
           Candidates text \<Rightarrow> if text \<noteq> [] then (Inr text, st1) else callGemini_loop e p rest st1
         | ApiError code \<Rightarrow>
             if code = Some 429 then callGemini_loop e p rest st1
             else if code = Some 400 then (Inl GeminiInvalidRequest, st1)
             else if code = Some 401 then (Inl GeminiAuthFailed, st1)
             else (Inl GeminiOtherError, st1))"

definition callGemini :: "env \<Rightarrow> prompt \<Rightarrow> state \<Rightarrow> (error + string) \<times> state" where
  "callGemini e p st = callGemini_loop e p GEMINI_MODELS (log_call (CallGemini p) st)"


section \<open>Case collection (server.js)\<close>

text \<open>\<open>Case.findOne({ userId, orderId, productIndex })\<close>\<close>

definition find_case :: "user_id \<Rightarrow> order_id \<Rightarrow> nat \<Rightarrow> state \<Rightarrow> case_doc option" where
  "find_case u oid pidx st =
     find (\<lambda>c. c_userId c = u \<and> c_orderId c = oid \<and> c_productIndex c = pidx) (cases st)"

text \<open>\<open>Case.findById(id)\<close>\<close>

definition find_case_by_id :: "case_id \<Rightarrow> state \<Rightarrow> case_doc option" where
  "find_case_by_id i st = find (\<lambda>c. c_id c = i) (cases st)"

text \<open>
  \<open>new Case({ userId, orderId, productIndex, description, priority, domain, status: "open" }).save()\<close>:
  the document gets a fresh \<open>_id\<close>, an empty response list and both dates set to now.
\<close>

definition create_case :: "time \<Rightarrow> user_id \<Rightarrow> order_id \<Rightarrow> nat \<Rightarrow> string \<Rightarrow> priority \<Rightarrow> domain \<Rightarrow> state \<Rightarrow> case_doc \<times> state" where
  "create_case now u oid pidx desc prio dmn st =
     (let c = \<lparr>c_id = next_id st, c_userId = u, c_orderId = oid, c_productIndex = pidx,
               c_description = desc, c_domain = dmn, c_priority = prio, c_status = Open,
               c_responses = [], c_createdAt = now, c_updatedAt = now\<rparr>
      in (c, st\<lparr>cases := cases st @ [c], next_id := Suc (next_id st)\<rparr>))"

text \<open>\<open>doc.save()\<close> on a document read from the collection: the stored document is replaced.\<close>

definition save_case :: "case_doc \<Rightarrow> state \<Rightarrow> state" where
  "save_case c st = st\<lparr>cases := map (\<lambda>d. if c_id d = c_id c then c else d) (cases st)\<rparr>"


section \<open>The chat handler: \<open>POST /api/chat\<close> (server.js)\<close>

definition REFUND_WORDS :: "string list" where
  "REFUND_WORDS = [''refund'', ''money back'', ''chargeback'', ''return my money'']"

definition isRefund :: "string \<Rightarrow> bool" where
  "isRefund message = some_included REFUND_WORDS (toLowerCase message)"

text \<open>The UTF-8 bytes of the right single quotation mark and of the em dash.\<close>

definition rsquo :: string where
  "rsquo = [CHR 0xE2, CHR 0x80, CHR 0x99]"

definition mdash :: string where
  "mdash = [CHR 0xE2, CHR 0x80, CHR 0x94]"

definition REFUND_REPLY :: string where
  "REFUND_REPLY =
     ''Got it. This looks like a refund request '' @ mdash @ '' we'' @ rsquo
     @ ''ve escalated it to our support team. We'' @ rsquo @ ''ll take care of it.''"

definition DEFAULT_LLM_REPLY :: string where
  "DEFAULT_LLM_REPLY = ''Thanks for the details. We'' @ rsquo @ ''re routing this to a specialist.''"

text \<open>
  The user object: the Redis cache first, then the \<open>User\<close> collection, whose answer is
  cached for an hour.
\<close>

definition load_user :: "user_id \<Rightarrow> time \<Rightarrow> state \<Rightarrow> user option \<times> state" where
  "load_user uid now st =
     (case redis_get (user_cache st) uid now of
        Some u \<Rightarrow> (Some u, st)
      | None \<Rightarrow>
          (case users st uid of
             None \<Rightarrow> (None, st)
           | Some u \<Rightarrow> (Some u, st\<lparr>user_cache := redis_set_ex (user_cache st) uid u 3600 now\<rparr>)))"

definition chat_key_of :: "user_id \<Rightarrow> selected_product \<Rightarrow> chat_key" where
  "chat_key_of uid sp = (uid, sp_orderId sp, sp_productIndex sp)"

text \<open>"Ensure case exists": the case of the selected product, created minimal and open if absent.\<close>

definition ensure_case :: "time \<Rightarrow> user_id \<Rightarrow> string \<Rightarrow> selected_product \<Rightarrow> state \<Rightarrow> case_doc \<times> state" where
  "ensure_case now uid message sp st =
     (case find_case uid (sp_orderId sp) (sp_productIndex sp) st of
        Some c \<Rightarrow> (c, st)
      | None \<Rightarrow> create_case now uid (sp_orderId sp) (sp_productIndex sp) message Low (sp_domain sp) st)"

text \<open>The agent-only short-circuit.\<close>

definition agent_only_stage :: "time \<Rightarrow> user_id \<Rightarrow> string \<Rightarrow> selected_product \<Rightarrow> case_doc \<Rightarrow> state \<Rightarrow> http \<times> state" where
  "agent_only_stage now uid message sp existingCase st =
     (let st1 = push_turn (chat_key_of uid sp)
                  \<lparr>t_prompt = message, t_reply = None, t_orderId = sp_orderId sp,
                   t_productIndex = sp_productIndex sp, t_caseId = Some (c_id existingCase),
                   t_timestamp = now, t_source = Some SrcUser, t_score = None\<rparr> now st;
          st2 = emit AgentsRoom
                  (ChatUser uid (sp_orderId sp) (sp_productIndex sp) (c_id existingCase) message now) st1
      in (ChatQueued (c_id existingCase), st2))"

text \<open>The refund path.\<close>

definition refund_upsert :: "time \<Rightarrow> user_id \<Rightarrow> string \<Rightarrow> selected_product \<Rightarrow> state \<Rightarrow> case_doc \<times> state" where
  "refund_upsert now uid message sp st =
     (let description = ''[Refund Request] '' @ message
      in case find_case uid (sp_orderId sp) (sp_productIndex sp) st of
           None \<Rightarrow> create_case now uid (sp_orderId sp) (sp_productIndex sp) description High (sp_domain sp) st
         | Some c \<Rightarrow>
             (let c1 = c\<lparr>c_description := description, c_priority := High,
                         c_domain := sp_domain sp, c_status := Open\<rparr>
              in (c1, save_case c1 st)))"

definition refund_stage :: "env \<Rightarrow> time \<Rightarrow> user_id \<Rightarrow> string \<Rightarrow> selected_product \<Rightarrow> state \<Rightarrow> http \<times> state" where
  "refund_stage e now uid message sp st =
     (let lab = label (analyzeSentiment message);
          sla = computeSLA (sla_vars e) (Some High) (Some lab);
          (csCase, st1) = refund_upsert now uid message sp st;
          st2 = indexCase e now (Some csCase) st1;
          st3 = push_turn (chat_key_of uid sp)
                  \<lparr>t_prompt = message, t_reply = Some REFUND_REPLY, t_orderId = sp_orderId sp,
                   t_productIndex = sp_productIndex sp, t_caseId = Some (c_id csCase),
                   t_timestamp = now, t_source = None, t_score = None\<rparr> now st2;
          st4 = emit (UserRoom uid)
                  (ChatReply uid (sp_orderId sp) (sp_productIndex sp) (Some (c_id csCase)) SrcRefund REFUND_REPLY now) st3;
          st5 = emit (UserRoom uid) (CaseStatus (c_id csCase) (c_status csCase)) st4;
          st6 = emit AgentsRoom
                  (ChatReply uid (sp_orderId sp) (sp_productIndex sp) (Some (c_id csCase)) SrcRefund REFUND_REPLY now) st5
      in (ChatEscalated REFUND_REPLY sla (c_id csCase), st6))"

text \<open>A FAQ hit.\<close>

definition faq_stage :: "time \<Rightarrow> user_id \<Rightarrow> string \<Rightarrow> selected_product \<Rightarrow> faq_hit \<Rightarrow> state \<Rightarrow> http \<times> state" where
  "faq_stage now uid message sp faqHit st =
     (let reply = answer faqHit;
          st1 = push_turn (chat_key_of uid sp)
                  \<lparr>t_prompt = message, t_reply = Some reply, t_orderId = sp_orderId sp,
                   t_productIndex = sp_productIndex sp, t_caseId = None,
                   t_timestamp = now, t_source = Some SrcFaq, t_score = Some (hit_score faqHit)\<rparr> now st;
          st2 = emit (UserRoom uid)
                  (ChatReply uid (sp_orderId sp) (sp_productIndex sp) None SrcFaq reply now) st1;
          st3 = emit AgentsRoom
                  (ChatReply uid (sp_orderId sp) (sp_productIndex sp) None SrcFaq reply now) st2
      in (ChatFaq reply (hit_score faqHit), st3))"

text \<open>A case-memory hit; \<open>best\<close> is \<open>similar[0]\<close>.\<close>

definition memory_stage :: "env \<Rightarrow> time \<Rightarrow> user_id \<Rightarrow> string \<Rightarrow> selected_product \<Rightarrow> case_memory \<times> real \<Rightarrow> (case_memory \<times> real) list \<Rightarrow> state \<Rightarrow> http \<times> state" where
  "memory_stage e now uid message sp best similar st =
     (let pretty = memory_reply e (m_summary (fst best)) (sp_orderId sp) (sp_name sp);
          st1 = push_turn (chat_key_of uid sp)
                  \<lparr>t_prompt = message, t_reply = Some pretty, t_orderId = sp_orderId sp,
                   t_productIndex = sp_productIndex sp, t_caseId = Some (m_caseId (fst best)),
                   t_timestamp = now, t_source = Some SrcCaseMemory, t_score = Some (snd best)\<rparr> now st;
          st2 = emit (UserRoom uid)
                  (ChatReply uid (sp_orderId sp) (sp_productIndex sp) (Some (m_caseId (fst best))) SrcCaseMemory pretty now) st1;
          st3 = emit AgentsRoom
                  (ChatReply uid (sp_orderId sp) (sp_productIndex sp) (Some (m_caseId (fst best))) SrcCaseMemory pretty now) st2
      in (ChatMemory pretty (snd best) (map (\<lambda>s. (m_caseId (fst s), snd s)) similar), st3))"

text \<open>The generative fallback and its case upsert.\<close>

definition llm_priority :: "string \<Rightarrow> priority" where
  "llm_priority message =
     (if some_included [''payment'', ''billing'', ''charged'', ''failed''] (toLowerCase message)
      then High else Low)"

definition llm_upsert :: "time \<Rightarrow> user_id \<Rightarrow> string \<Rightarrow> priority \<Rightarrow> selected_product \<Rightarrow> state \<Rightarrow> case_doc \<times> state" where
  "llm_upsert now uid message prio sp st =
     (case find_case uid (sp_orderId sp) (sp_productIndex sp) st of
        None \<Rightarrow> create_case now uid (sp_orderId sp) (sp_productIndex sp) message prio (sp_domain sp) st
      | Some c \<Rightarrow>
          (let c1 = c\<lparr>c_description := message, c_priority := prio, c_domain := sp_domain sp,
                      c_status := (if c_status c = Resolved then Open else c_status c)\<rparr>
           in (c1, save_case c1 st)))"

definition llm_stage :: "env \<Rightarrow> time \<Rightarrow> user_id \<Rightarrow> user \<Rightarrow> string \<Rightarrow> selected_product \<Rightarrow> state \<Rightarrow> http \<times> state" where
  "llm_stage e now uid userObj message sp st =
     (let p = \<lparr>p_domain = sp_domain sp, p_userName = u_name userObj, p_userEmail = u_email userObj,
               p_productName = sp_name sp, p_quantity = sp_quantity sp, p_price = sp_price sp,
               p_status = sp_status sp, p_orderId = sp_orderId sp, p_message = message\<rparr>;
          (r, st1) = callGemini e p st;
          llmReply = (case r of Inl err \<Rightarrow> DEFAULT_LLM_REPLY | Inr text \<Rightarrow> text);
          lab = label (analyzeSentiment (message @ '' '' @ llmReply));
          prio = llm_priority message;
          sla = computeSLA (sla_vars e) (Some prio) (Some lab);
          (csCase, st2) = llm_upsert now uid message prio sp st1;
          st3 = indexCase e now (Some csCase) st2;
          st4 = push_turn (chat_key_of uid sp)
                  \<lparr>t_prompt = message, t_reply = Some llmReply, t_orderId = sp_orderId sp,
                   t_productIndex = sp_productIndex sp, t_caseId = Some (c_id csCase),
                   t_timestamp = now, t_source = Some SrcLlm, t_score = None\<rparr> now st3;
          st5 = emit (UserRoom uid)
                  (ChatReply uid (sp_orderId sp) (sp_productIndex sp) (Some (c_id csCase)) SrcLlm llmReply now) st4;
          st6 = emit AgentsRoom
                  (ChatReply uid (sp_orderId sp) (sp_productIndex sp) (Some (c_id csCase)) SrcLlm llmReply now) st5;
          st7 = emit (UserRoom uid) (CaseStatus (c_id csCase) (c_status csCase)) st6
      in (ChatEscalated llmReply sla (c_id csCase), st7))"

text \<open>
  The automated stages after the lock check, in the order of the source: refund, FAQ,
  case memory, generative fallback. An error thrown by a stage function would reach the
  handler's \<open>catch\<close> and give status 500.
\<close>

definition automated_stages :: "env \<Rightarrow> time \<Rightarrow> user_id \<Rightarrow> user \<Rightarrow> string \<Rightarrow> selected_product \<Rightarrow> state \<Rightarrow> http \<times> state" where
  "automated_stages e now uid userObj message sp st =
     (if isRefund message then refund_stage e now uid message sp st
      else case checkFaq e message (Some (sp_domain sp)) st of
             (Inl err, st1) \<Rightarrow> (Http500 ''Failed to process chat'', st1)
           | (Inr (Some faqHit), st1) \<Rightarrow> faq_stage now uid message sp faqHit st1
           | (Inr None, st1) \<Rightarrow>
               (let K = (case SIM_TOP_K e of None \<Rightarrow> 3 | Some k \<Rightarrow> k);
                    CM_TH = env_number (SIM_CASE_THRESHOLD e) (72 / 100)
                in case searchSimilarCases e message (Some (sp_domain sp)) K st1 of
                     (Inl err, st2) \<Rightarrow> (Http500 ''Failed to process chat'', st2)
                   | (Inr [], st2) \<Rightarrow> llm_stage e now uid userObj message sp st2
                   | (Inr (best # rest), st2) \<Rightarrow>
                       if snd best \<ge> CM_TH then memory_stage e now uid message sp best (best # rest) st2
                       else llm_stage e now uid userObj message sp st2))"

text \<open>
  The handler. The request body's \<open>message\<close> is \<open>None\<close> when it is missing or not a
  string. \<open>uid\<close> is the authenticated user; \<open>now\<close> is the instant of the request.
\<close>

definition chat :: "env \<Rightarrow> time \<Rightarrow> user_id \<Rightarrow> string option \<Rightarrow> state \<Rightarrow> http \<times> state" where
  "chat e now uid body st =
     (case body of
        None \<Rightarrow> (Http400 ''Message is required'', st)
      | Some message \<Rightarrow>
          (if message = [] then (Http400 ''Message is required'', st)
           else (case load_user uid now st of
                   (None, st1) \<Rightarrow> (Http404 ''User not found'', st1)
                 | (Some userObj, st1) \<Rightarrow>
                     (case redis_get (selected st1) uid now of
                        None \<Rightarrow> (Http400 ''Select an order/product first'', st1)
                      | Some sp \<Rightarrow>
                          (let (existingCase, st2) = ensure_case now uid message sp st1
                           in if isAgentOnly (Some (c_id existingCase)) now st2
                              then agent_only_stage now uid message sp existingCase st2
                              else automated_stages e now uid userObj message sp st2)))))"

text \<open>A sequence of chat requests of one user, each with its instant; the replies in order.\<close>

fun chat_seq :: "env \<Rightarrow> user_id \<Rightarrow> (time \<times> string option) list \<Rightarrow> state \<Rightarrow> http list \<times> state" where
  "chat_seq e uid [] st = ([], st)"
| "chat_seq e uid (rq # rqs) st =
     (let (r, st1) = chat e (fst rq) uid (snd rq) st;
          (rs, st2) = chat_seq e uid rqs st1
      in (r # rs, st2))"


text \<open>
  A request that reaches the lock check for the case of \<open>(uid, oid, pidx)\<close> at an instant
  before \<open>ex\<close>: a non-empty message and a live selected product of that order and index.
\<close>

definition lock_request :: "state \<Rightarrow> user_id \<Rightarrow> order_id \<Rightarrow> nat \<Rightarrow> time \<Rightarrow> time \<times> string option \<Rightarrow> bool" where
  "lock_request st uid oid pidx ex rq =
     (fst rq < ex \<and>
      (case snd rq of
         None \<Rightarrow> False
       | Some m \<Rightarrow>
           m \<noteq> [] \<and>
           (case redis_get (selected st) uid (fst rq) of
              None \<Rightarrow> False
            | Some sp \<Rightarrow> sp_orderId sp = oid \<and> sp_productIndex sp = pidx)))"


section \<open>Agent endpoints (server.js)\<close>

text \<open>
  \<open>POST /api/case/:id/response\<close>: \<open>findByIdAndUpdate\<close> pushes the response, sets
  \<open>updatedAt\<close> and sets the status to \<open>"in-progress"\<close>; then the events are emitted and
  the agent-only lock is set.
\<close>

definition add_response :: "time \<Rightarrow> user_id \<Rightarrow> role \<Rightarrow> case_id \<Rightarrow> string option \<Rightarrow> state \<Rightarrow> http \<times> state" where
  "add_response now uid userRole i body st =
     (if userRole \<noteq> AdminRole then (Http403 ''Admin access required'', st)
      else (case body of
              None \<Rightarrow> (Http400 ''Message required'', st)
            | Some message \<Rightarrow>
                (if message = [] then (Http400 ''Message required'', st)
                 else (case find_case_by_id i st of
                         None \<Rightarrow> (Http404 ''Case not found'', st)
                       | Some c \<Rightarrow>
                           (let updatedCase = c\<lparr>c_responses := c_responses c @
                                                   [\<lparr>r_adminId = Some uid, r_message = message, r_timestamp = now\<rparr>],
                                                 c_updatedAt := now, c_status := InProgress\<rparr>;
                                st1 = save_case updatedCase st;
                                st2 = emit (CaseRoom i) (CaseMessage i message now) st1;
                                st3 = emit (UserRoom (c_userId updatedCase)) (CaseMessage i message now) st2;
                                st4 = emit (CaseRoom i) (CaseStatus i InProgress) st3;
                                st5 = emit (UserRoom (c_userId updatedCase)) (CaseStatus i InProgress) st4;
                                st6 = emit (UserRoom (c_userId updatedCase))
                                        (ChatReply (c_userId updatedCase) (c_orderId updatedCase)
                                           (c_productIndex updatedCase) (Some i) SrcAgent message now) st5;
                                st7 = emit AgentsRoom
                                        (ChatReply (c_userId updatedCase) (c_orderId updatedCase)
                                           (c_productIndex updatedCase) (Some i) SrcAgent message now) st6;
                                st8 = setAgentOnly (Some i) now st7
                            in (ResponseAdded updatedCase, st8))))))"

text \<open>\<open>PUT /api/case/:id/agent-only\<close>: the manual toggle.\<close>

definition toggle_agent_only :: "time \<Rightarrow> role \<Rightarrow> case_id \<Rightarrow> bool \<Rightarrow> state \<Rightarrow> http \<times> state" where
  "toggle_agent_only now userRole i enabled st =
     (if userRole \<noteq> AdminRole then (Http403 ''Admin access required'', st)
      else (case find_case_by_id i st of
              None \<Rightarrow> (Http404 ''Case not found'', st)
            | Some c \<Rightarrow>
                (if enabled then (AgentOnlyToggled enabled i, setAgentOnly (Some i) now st)
                 else (AgentOnlyToggled enabled i, clearAgentOnly (Some i) st))))"



section \<open>Reading the call log\<close>

text \<open>The calls logged between an earlier state and a later state of one run.\<close>

definition new_calls :: "state \<Rightarrow> state \<Rightarrow> call list" where
  "new_calls st st1 = drop (length (trace st)) (trace st1)"

fun is_checkFaq :: "call \<Rightarrow> bool" where
  "is_checkFaq (CheckFaq m d) = True"
| "is_checkFaq c = False"

text \<open>
  Entering one of the automated answer stages after the refund check: the FAQ matcher,
  the case-memory search, the generative fallback.
\<close>

fun is_answer_stage :: "call \<Rightarrow> bool" where
  "is_answer_stage (CheckFaq m d) = True"
| "is_answer_stage (SearchSimilarCases m d k) = True"
| "is_answer_stage (CallGemini p) = True"
| "is_answer_stage (GenerateContent m) = True"
| "is_answer_stage c = False"


section \<open>An example environment and example states\<close>

text \<open>
  A user with one selected product and one case for it, a one-entry FAQ corpus, and an
  embedding service that maps every text to the same vector, so that every message
  matches the FAQ entry with similarity 1. The generative service answers every request
  with a quota error.
\<close>

definition ex_user :: user where
  "ex_user = \<lparr>u_name = ''Asha'', u_email = ''asha@example.com'', u_role = UserRole\<rparr>"

definition ex_product :: selected_product where
  "ex_product =
     \<lparr>sp_orderId = ''ORD1001'', sp_productIndex = 0, sp_name = ''Headphones'', sp_quantity = 1,
      sp_price = 1999, sp_domain = ECommerce, sp_status = ''Delivered''\<rparr>"

definition ex_case :: "status \<Rightarrow> case_doc" where
  "ex_case s =
     \<lparr>c_id = 7, c_userId = 42, c_orderId = ''ORD1001'', c_productIndex = 0,
      c_description = ''Item arrived damaged'', c_domain = ECommerce, c_priority = Low,
      c_status = s, c_responses = [], c_createdAt = 100, c_updatedAt = 100\<rparr>"

definition ex_faq :: faq where
  "ex_faq =
     \<lparr>f_question = ''Where is my order?'', f_answer = ''Track it under My Orders.'',
      f_domain = ECommerce, f_embedding = [1, 0]\<rparr>"

text \<open>The state, by the status of the case and the content of the agent-only keys.\<close>

definition ex_state :: "status \<Rightarrow> (case_id \<rightharpoonup> string \<times> time) \<Rightarrow> state" where
  "ex_state s locks =
     \<lparr>users = [42 \<mapsto> ex_user], cases = [ex_case s], next_id = 8, faqs = [ex_faq], memories = [],
      user_cache = Map.empty, selected = [42 \<mapsto> (ex_product, 5000)], agent_only = locks,
      chats = Map.empty, outbox = [], trace = []\<rparr>"

definition ex_env :: env where
  "ex_env =
     \<lparr>embedding_api = (\<lambda>h t. Some [1, 0]), gemini_api = (\<lambda>h m p. ApiError (Some 429)),
      faq_find_fails = (\<lambda>h. False), memory_store_fails = (\<lambda>h. False),
      memory_reply = (\<lambda>s oid n. s), FAQ_SIM_THRESHOLD = None, FAQ_TOP_K = None,
      SIM_TOP_K = None, SIM_CASE_THRESHOLD = None, sla_vars = sla_defaults\<rparr>"

text \<open>The same environment with the embedding service down.\<close>

definition ex_env_down :: env where
  "ex_env_down = ex_env\<lparr>embedding_api := (\<lambda>h t. None)\<rparr>"

text \<open>
  The same environment with an embedding service that answers only while fewer than two
  calls have been logged.
\<close>

definition ex_env_flaky :: env where
  "ex_env_flaky = ex_env\<lparr>embedding_api := (\<lambda>h t. if length h < 2 then Some [1, 0] else None)\<rparr>"

text \<open>The same environment with the queries on both corpora failing.\<close>

definition ex_env_store_down :: env where
  "ex_env_store_down = ex_env\<lparr>faq_find_fails := (\<lambda>h. True), memory_store_fails := (\<lambda>h. True)\<rparr>"


section \<open>Properties of the sentiment classifier and the SLA calculator\<close>

text \<open>
  C5 as stated: the three labels claimed for the three example texts. The third fails:
  "ok" is itself a calm word, its score is 0.6, and the label is cool.
\<close>

theorem C5_ok_not_neutral:
  "\<not> (label (analyzeSentiment ''please, no hurry'') = Cool
      \<and> label (analyzeSentiment ''this is a scam, fraud, terrible!!!'') = Angry
      \<and> label (analyzeSentiment ''ok'') = Neutral)"
  by code_simp

text \<open>
  C5, amended. "please, no hurry" is labelled cool, "this is a scam, fraud, terrible!!!"
  is labelled angry and "ok" is labelled cool; for every text the label follows the
  thresholds: score at most -0.8 is angry, score at least 0.6 is cool, anything else is
  neutral.
\<close>

theorem C5_sentiment_labels:
  "label (analyzeSentiment ''please, no hurry'') = Cool
   \<and> label (analyzeSentiment ''this is a scam, fraud, terrible!!!'') = Angry
   \<and> label (analyzeSentiment ''ok'') = Cool
   \<and> label (analyzeSentiment text)
       = (if raw_score text \<le> - 0.8 then Angry else if raw_score text \<ge> 0.6 then Cool else Neutral)"
proof -
  have 1: "label (analyzeSentiment ''please, no hurry'') = Cool" by code_simp
  have 2: "label (analyzeSentiment ''this is a scam, fraud, terrible!!!'') = Angry" by code_simp
  have 3: "label (analyzeSentiment ''ok'') = Cool" by code_simp
  have 4: "label (analyzeSentiment text)
       = (if raw_score text \<le> - 0.8 then Angry else if raw_score text \<ge> 0.6 then Cool else Neutral)"
    by (simp add: analyzeSentiment_def label_of_score_def Let_def)
  from 1 2 3 4 show ?thesis by blast
qed

text \<open>
  C6. \<open>computeSLA\<close> decides by first match: angry gives express, then high priority
  gives express, then cool gives batched, else standard; with no variable set the targets
  are 15, 60 and 180 minutes.
\<close>

theorem C6_computeSLA:
  "computeSLA sla_defaults (Some p) (Some s)
     = (if s = Angry then \<lparr>level = Express, targetMinutes = 15\<rparr>
        else if p = High then \<lparr>level = Express, targetMinutes = 15\<rparr>
        else if s = Cool then \<lparr>level = Batched, targetMinutes = 180\<rparr>
        else \<lparr>level = Standard, targetMinutes = 60\<rparr>)
   \<and> computeSLA sla_defaults (Some High) (Some Neutral) = \<lparr>level = Express, targetMinutes = 15\<rparr>
   \<and> computeSLA sla_defaults (Some Low) (Some Cool) = \<lparr>level = Batched, targetMinutes = 180\<rparr>
   \<and> computeSLA sla_defaults (Some Low) (Some Neutral) = \<lparr>level = Standard, targetMinutes = 60\<rparr>"
  by (simp add: computeSLA_def sla_defaults_def env_number_def)

section \<open>Frame lemmas: which fields each operation changes\<close>

lemma log_call_fields [simp]:
  "users (log_call c st) = users st"
  "cases (log_call c st) = cases st"
  "next_id (log_call c st) = next_id st"
  "faqs (log_call c st) = faqs st"
  "memories (log_call c st) = memories st"
  "user_cache (log_call c st) = user_cache st"
  "selected (log_call c st) = selected st"
  "agent_only (log_call c st) = agent_only st"
  "chats (log_call c st) = chats st"
  "outbox (log_call c st) = outbox st"
  "trace (log_call c st) = trace st @ [c]"
  by (simp_all add: log_call_def)

lemma emit_fields [simp]:
  "users (emit r ev st) = users st"
  "cases (emit r ev st) = cases st"
  "next_id (emit r ev st) = next_id st"
  "faqs (emit r ev st) = faqs st"
  "memories (emit r ev st) = memories st"
  "user_cache (emit r ev st) = user_cache st"
  "selected (emit r ev st) = selected st"
  "agent_only (emit r ev st) = agent_only st"
  "chats (emit r ev st) = chats st"
  "outbox (emit r ev st) = outbox st @ [(r, ev)]"
  "trace (emit r ev st) = trace st"
  by (simp_all add: emit_def)

lemma push_turn_fields [simp]:
  "users (push_turn k t now st) = users st"
  "cases (push_turn k t now st) = cases st"
  "next_id (push_turn k t now st) = next_id st"
  "faqs (push_turn k t now st) = faqs st"
  "memories (push_turn k t now st) = memories st"
  "user_cache (push_turn k t now st) = user_cache st"
  "selected (push_turn k t now st) = selected st"
  "agent_only (push_turn k t now st) = agent_only st"
  "outbox (push_turn k t now st) = outbox st"
  "trace (push_turn k t now st) = trace st"
  by (simp_all add: push_turn_def)

lemma push_turn_lrange:
  "redis_lrange (chats (push_turn k t now st)) k now = redis_lrange (chats st) k now @ [t]"
  by (simp add: push_turn_def redis_lrange_def redis_rpush_def redis_expire_def list_live_def
      split: option.splits)

lemma save_case_fields [simp]:
  "users (save_case c st) = users st"
  "next_id (save_case c st) = next_id st"
  "faqs (save_case c st) = faqs st"
  "memories (save_case c st) = memories st"
  "user_cache (save_case c st) = user_cache st"
  "selected (save_case c st) = selected st"
  "agent_only (save_case c st) = agent_only st"
  "chats (save_case c st) = chats st"
  "outbox (save_case c st) = outbox st"
  "trace (save_case c st) = trace st"
  by (simp_all add: save_case_def)

lemma create_case_fields [simp]:
  "users (snd (create_case now u oid pidx d p dm st)) = users st"
  "faqs (snd (create_case now u oid pidx d p dm st)) = faqs st"
  "memories (snd (create_case now u oid pidx d p dm st)) = memories st"
  "user_cache (snd (create_case now u oid pidx d p dm st)) = user_cache st"
  "selected (snd (create_case now u oid pidx d p dm st)) = selected st"
  "agent_only (snd (create_case now u oid pidx d p dm st)) = agent_only st"
  "chats (snd (create_case now u oid pidx d p dm st)) = chats st"
  "outbox (snd (create_case now u oid pidx d p dm st)) = outbox st"
  "trace (snd (create_case now u oid pidx d p dm st)) = trace st"
  by (simp_all add: create_case_def Let_def)

lemma setAgentOnly_fields [simp]:
  "users (setAgentOnly i now st) = users st"
  "cases (setAgentOnly i now st) = cases st"
  "next_id (setAgentOnly i now st) = next_id st"
  "faqs (setAgentOnly i now st) = faqs st"
  "memories (setAgentOnly i now st) = memories st"
  "user_cache (setAgentOnly i now st) = user_cache st"
  "selected (setAgentOnly i now st) = selected st"
  "chats (setAgentOnly i now st) = chats st"
  "outbox (setAgentOnly i now st) = outbox st"
  "trace (setAgentOnly i now st) = trace st"
  by (simp_all add: setAgentOnly_def split: option.splits)

lemma getEmbedding_snd [simp]:
  "snd (getEmbedding e text st) = log_call (GetEmbedding text) st"
  by (simp add: getEmbedding_def split: option.splits)

lemma indexCase_try_fields [simp]:
  "users (snd (indexCase_try e now c st)) = users st"
  "cases (snd (indexCase_try e now c st)) = cases st"
  "next_id (snd (indexCase_try e now c st)) = next_id st"
  "faqs (snd (indexCase_try e now c st)) = faqs st"
  "user_cache (snd (indexCase_try e now c st)) = user_cache st"
  "selected (snd (indexCase_try e now c st)) = selected st"
  "agent_only (snd (indexCase_try e now c st)) = agent_only st"
  "chats (snd (indexCase_try e now c st)) = chats st"
  "outbox (snd (indexCase_try e now c st)) = outbox st"
  "trace (snd (indexCase_try e now c st)) = trace st @ [GetEmbedding (index_text c)]"
  by (simp_all add: indexCase_try_def getEmbedding_def CaseMemory_findOneAndUpdate_def log_call_def
      Let_def split: option.splits)

lemma indexCase_fields [simp]:
  "users (indexCase e now cd st) = users st"
  "cases (indexCase e now cd st) = cases st"
  "next_id (indexCase e now cd st) = next_id st"
  "faqs (indexCase e now cd st) = faqs st"
  "user_cache (indexCase e now cd st) = user_cache st"
  "selected (indexCase e now cd st) = selected st"
  "agent_only (indexCase e now cd st) = agent_only st"
  "chats (indexCase e now cd st) = chats st"
  "outbox (indexCase e now cd st) = outbox st"
  by (simp_all add: indexCase_def split: option.splits)

lemma indexCase_trace [simp]:
  "trace (indexCase e now (Some c) st) = trace st @ [IndexCase (c_id c), GetEmbedding (index_text c)]"
  by (simp add: indexCase_def)

lemma load_user_fields [simp]:
  "users (snd (load_user uid now st)) = users st"
  "cases (snd (load_user uid now st)) = cases st"
  "next_id (snd (load_user uid now st)) = next_id st"
  "faqs (snd (load_user uid now st)) = faqs st"
  "memories (snd (load_user uid now st)) = memories st"
  "selected (snd (load_user uid now st)) = selected st"
  "agent_only (snd (load_user uid now st)) = agent_only st"
  "chats (snd (load_user uid now st)) = chats st"
  "outbox (snd (load_user uid now st)) = outbox st"
  "trace (snd (load_user uid now st)) = trace st"
  by (simp_all add: load_user_def split: option.splits)

lemma ensure_case_fields [simp]:
  "users (snd (ensure_case now uid m sp st)) = users st"
  "faqs (snd (ensure_case now uid m sp st)) = faqs st"
  "memories (snd (ensure_case now uid m sp st)) = memories st"
  "user_cache (snd (ensure_case now uid m sp st)) = user_cache st"
  "selected (snd (ensure_case now uid m sp st)) = selected st"
  "agent_only (snd (ensure_case now uid m sp st)) = agent_only st"
  "chats (snd (ensure_case now uid m sp st)) = chats st"
  "outbox (snd (ensure_case now uid m sp st)) = outbox st"
  "trace (snd (ensure_case now uid m sp st)) = trace st"
  by (simp_all add: ensure_case_def split: option.splits)


section \<open>Looking up and saving cases\<close>

lemma find_replace:
  "find P cs = Some c \<Longrightarrow> P c1 \<Longrightarrow> Q c \<Longrightarrow> find P (map (\<lambda>d. if Q d then c1 else d) cs) = Some c1"
  by (induction cs) (auto split: if_splits)

lemma find_snoc_new: "find P cs = None \<Longrightarrow> P c \<Longrightarrow> find P (cs @ [c]) = Some c"
  by (induction cs) (auto split: if_splits)

lemma find_case_SomeD:
  "find_case u oid pidx st = Some c \<Longrightarrow> c_userId c = u \<and> c_orderId c = oid \<and> c_productIndex c = pidx"
  by (auto simp: find_case_def find_Some_iff)

lemma find_case_save:
  assumes "find_case u oid pidx st = Some c" and "c_id c1 = c_id c"
    and "c_userId c1 = u" and "c_orderId c1 = oid" and "c_productIndex c1 = pidx"
  shows "find_case u oid pidx (save_case c1 st) = Some c1"
proof -
  have "find (\<lambda>c. c_userId c = u \<and> c_orderId c = oid \<and> c_productIndex c = pidx)
          (map (\<lambda>d. if c_id d = c_id c1 then c1 else d) (cases st)) = Some c1"
    by (rule find_replace [where c = c]) (use assms in \<open>simp_all add: find_case_def\<close>)
  then show ?thesis
    by (simp add: find_case_def save_case_def)
qed

lemma find_case_by_id_save:
  assumes "find_case_by_id i st = Some c" and "c_id c1 = i"
  shows "find_case_by_id i (save_case c1 st) = Some c1"
proof -
  from assms(1) have "c_id c = i" by (auto simp: find_case_by_id_def find_Some_iff)
  have "find (\<lambda>c. c_id c = i) (map (\<lambda>d. if c_id d = c_id c1 then c1 else d) (cases st)) = Some c1"
    by (rule find_replace [where c = c]) (use assms \<open>c_id c = i\<close> in \<open>simp_all add: find_case_by_id_def\<close>)
  then show ?thesis
    by (simp add: find_case_by_id_def save_case_def)
qed

lemma find_case_frame: "cases st1 = cases st \<Longrightarrow> find_case u oid pidx st1 = find_case u oid pidx st"
  by (simp add: find_case_def)

lemma isAgentOnly_frame: "agent_only st1 = agent_only st \<Longrightarrow> isAgentOnly i now st1 = isAgentOnly i now st"
  by (cases i) (simp_all add: isAgentOnly_def)

lemma ensure_case_found:
  "find_case uid (sp_orderId sp) (sp_productIndex sp) (snd (ensure_case now uid m sp st))
     = Some (fst (ensure_case now uid m sp st))"
  by (auto simp: ensure_case_def create_case_def find_case_def Let_def find_snoc_new split: option.splits)

lemma ensure_case_existing:
  "find_case uid (sp_orderId sp) (sp_productIndex sp) st = Some c \<Longrightarrow> ensure_case now uid m sp st = (c, st)"
  by (simp add: ensure_case_def)

lemma ensure_case_after_load_user:
  "fst (ensure_case now uid m sp (snd (load_user uid t st))) = fst (ensure_case now uid m sp st)"
  "cases (snd (ensure_case now uid m sp (snd (load_user uid t st)))) = cases (snd (ensure_case now uid m sp st))"
  by (simp_all add: ensure_case_def create_case_def find_case_def Let_def split: option.splits)


lemma chat_valid_unfold:
  assumes "message \<noteq> []" and "fst (load_user uid now st) = Some userObj"
    and "redis_get (selected st) uid now = Some sp"
  shows "chat e now uid (Some message) st =
     (if isAgentOnly (Some (c_id (fst (ensure_case now uid message sp st)))) now st
      then agent_only_stage now uid message sp (fst (ensure_case now uid message sp st))
             (snd (ensure_case now uid message sp (snd (load_user uid now st))))
      else automated_stages e now uid userObj message sp
             (snd (ensure_case now uid message sp (snd (load_user uid now st)))))"
proof -
  obtain st1 where lu: "load_user uid now st = (Some userObj, st1)"
    using assms(2) by (cases "load_user uid now st") auto
  then have st1: "st1 = snd (load_user uid now st)" by simp
  have sel: "redis_get (selected st1) uid now = Some sp"
    using assms(3) by (simp add: st1)
  have c0: "fst (ensure_case now uid message sp st1) = fst (ensure_case now uid message sp st)"
    by (simp add: st1 ensure_case_after_load_user)
  have ao: "isAgentOnly i now (snd (ensure_case now uid message sp st1)) = isAgentOnly i now st" for i
    by (rule isAgentOnly_frame) (simp add: st1)
  show ?thesis
    using assms(1) by (simp add: chat_def lu sel Let_def split_def c0 ao)
qed


section \<open>The refund stage\<close>

lemma refund_stage_existing:
  assumes "find_case uid (sp_orderId sp) (sp_productIndex sp) st = Some c"
  shows "fst (refund_stage e now uid message sp st)
           = ChatEscalated REFUND_REPLY
               (computeSLA (sla_vars e) (Some High) (Some (label (analyzeSentiment message)))) (c_id c)"
    and "snd (refund_stage e now uid message sp st)
           = emit AgentsRoom
               (ChatReply uid (sp_orderId sp) (sp_productIndex sp) (Some (c_id c)) SrcRefund REFUND_REPLY now)
              (emit (UserRoom uid) (CaseStatus (c_id c) Open)
                (emit (UserRoom uid)
                   (ChatReply uid (sp_orderId sp) (sp_productIndex sp) (Some (c_id c)) SrcRefund REFUND_REPLY now)
                  (push_turn (chat_key_of uid sp)
                     \<lparr>t_prompt = message, t_reply = Some REFUND_REPLY, t_orderId = sp_orderId sp,
                      t_productIndex = sp_productIndex sp, t_caseId = Some (c_id c),
                      t_timestamp = now, t_source = None, t_score = None\<rparr> now
                    (indexCase e now
                       (Some (c\<lparr>c_description := ''[Refund Request] '' @ message, c_priority := High,
                                c_domain := sp_domain sp, c_status := Open\<rparr>))
                       (save_case (c\<lparr>c_description := ''[Refund Request] '' @ message, c_priority := High,
                                c_domain := sp_domain sp, c_status := Open\<rparr>) st)))))"
  using assms by (simp_all add: refund_stage_def refund_upsert_def Let_def)


lemma chat_refund_path:
  assumes msg: "message \<noteq> []" and user: "fst (load_user uid now st) = Some userObj"
    and sel: "redis_get (selected st) uid now = Some sp"
    and refund: "isRefund message"
    and unlocked: "\<not> isAgentOnly (Some (c_id (fst (ensure_case now uid message sp st)))) now st"
  shows "fst (chat e now uid (Some message) st)
           = ChatEscalated REFUND_REPLY
               (computeSLA (sla_vars e) (Some High) (Some (label (analyzeSentiment message))))
               (c_id (fst (ensure_case now uid message sp st)))"
    and "find_case uid (sp_orderId sp) (sp_productIndex sp) (snd (chat e now uid (Some message) st))
           = Some ((fst (ensure_case now uid message sp st))
                     \<lparr>c_description := ''[Refund Request] '' @ message, c_priority := High,
                      c_domain := sp_domain sp, c_status := Open\<rparr>)"
    and "outbox (snd (chat e now uid (Some message) st))
           = outbox st @
             [(UserRoom uid, ChatReply uid (sp_orderId sp) (sp_productIndex sp)
                 (Some (c_id (fst (ensure_case now uid message sp st)))) SrcRefund REFUND_REPLY now),
              (UserRoom uid, CaseStatus (c_id (fst (ensure_case now uid message sp st))) Open),
              (AgentsRoom, ChatReply uid (sp_orderId sp) (sp_productIndex sp)
                 (Some (c_id (fst (ensure_case now uid message sp st)))) SrcRefund REFUND_REPLY now)]"
    and "trace (snd (chat e now uid (Some message) st))
           = trace st @
             [IndexCase (c_id (fst (ensure_case now uid message sp st))),
              GetEmbedding (index_text ((fst (ensure_case now uid message sp st))
                     \<lparr>c_description := ''[Refund Request] '' @ message, c_priority := High,
                      c_domain := sp_domain sp, c_status := Open\<rparr>))]"
    and "redis_lrange (chats (snd (chat e now uid (Some message) st))) (chat_key_of uid sp) now
           = redis_lrange (chats st) (chat_key_of uid sp) now @
             [\<lparr>t_prompt = message, t_reply = Some REFUND_REPLY, t_orderId = sp_orderId sp,
               t_productIndex = sp_productIndex sp,
               t_caseId = Some (c_id (fst (ensure_case now uid message sp st))),
               t_timestamp = now, t_source = None, t_score = None\<rparr>]"
    and "cases (snd (chat e now uid (Some message) st))
           = map (\<lambda>d. if c_id d = c_id (fst (ensure_case now uid message sp st))
                      then (fst (ensure_case now uid message sp st))
                             \<lparr>c_description := ''[Refund Request] '' @ message, c_priority := High,
                              c_domain := sp_domain sp, c_status := Open\<rparr>
                      else d)
               (cases (snd (ensure_case now uid message sp st)))"
proof -
  let ?c0 = "fst (ensure_case now uid message sp st)"
  let ?st2 = "snd (ensure_case now uid message sp (snd (load_user uid now st)))"
  let ?c1 = "?c0\<lparr>c_description := ''[Refund Request] '' @ message, c_priority := High,
                      c_domain := sp_domain sp, c_status := Open\<rparr>"
  have chat: "chat e now uid (Some message) st = refund_stage e now uid message sp ?st2"
    using unlocked refund by (simp add: chat_valid_unfold [OF msg user sel] automated_stages_def)
  have found: "find_case uid (sp_orderId sp) (sp_productIndex sp) ?st2 = Some ?c0"
    using ensure_case_found [of uid sp now message "snd (load_user uid now st)"]
    by (simp add: ensure_case_after_load_user)
  note stage = refund_stage_existing [OF found, of e now message]
  show "fst (chat e now uid (Some message) st)
           = ChatEscalated REFUND_REPLY
               (computeSLA (sla_vars e) (Some High) (Some (label (analyzeSentiment message)))) (c_id ?c0)"
    by (simp add: chat stage(1))
  have saved: "find_case uid (sp_orderId sp) (sp_productIndex sp) (save_case ?c1 ?st2) = Some ?c1"
    by (rule find_case_save [OF found]) (use find_case_SomeD [OF found] in simp_all)
  show "find_case uid (sp_orderId sp) (sp_productIndex sp) (snd (chat e now uid (Some message) st)) = Some ?c1"
    using saved by (simp add: chat stage(2) find_case_def)
  show "outbox (snd (chat e now uid (Some message) st))
           = outbox st @
             [(UserRoom uid, ChatReply uid (sp_orderId sp) (sp_productIndex sp) (Some (c_id ?c0)) SrcRefund REFUND_REPLY now),
              (UserRoom uid, CaseStatus (c_id ?c0) Open),
              (AgentsRoom, ChatReply uid (sp_orderId sp) (sp_productIndex sp) (Some (c_id ?c0)) SrcRefund REFUND_REPLY now)]"
    by (simp add: chat stage(2))
  show "trace (snd (chat e now uid (Some message) st))
           = trace st @ [IndexCase (c_id ?c0), GetEmbedding (index_text ?c1)]"
    by (simp add: chat stage(2))
  show "redis_lrange (chats (snd (chat e now uid (Some message) st))) (chat_key_of uid sp) now
           = redis_lrange (chats st) (chat_key_of uid sp) now @
             [\<lparr>t_prompt = message, t_reply = Some REFUND_REPLY, t_orderId = sp_orderId sp,
               t_productIndex = sp_productIndex sp, t_caseId = Some (c_id ?c0),
               t_timestamp = now, t_source = None, t_score = None\<rparr>]"
    by (simp add: chat stage(2) push_turn_lrange)
  show "cases (snd (chat e now uid (Some message) st))
           = map (\<lambda>d. if c_id d = c_id ?c0 then ?c1 else d) (cases (snd (ensure_case now uid message sp st)))"
    by (simp add: chat stage(2) save_case_def ensure_case_after_load_user)
qed


text \<open>
  C1. A valid chat request whose message contains a refund keyword, handled while the
  agent-only lock of its case is not active, takes the refund path whatever the FAQ corpus
  and the embedding service are: the reply is the fixed escalation text with an express
  SLA, the case of the selected product is stored with high priority, the refund-tagged
  description and status open, the reply is published to the user and to the agents tagged
  refund, the turn is appended to the chat log, and the only calls made are the indexing of
  the case and its embedding request: the FAQ matcher is not entered.
\<close>

theorem C1_refund_path_before_faq:
  assumes "message \<noteq> []" and "isRefund message"
    and "fst (load_user uid now st) = Some userObj"
    and "redis_get (selected st) uid now = Some sp"
    and "\<not> isAgentOnly (Some (c_id (fst (ensure_case now uid message sp st)))) now st"
  shows "fst (chat e now uid (Some message) st)
           = ChatEscalated REFUND_REPLY
               (computeSLA (sla_vars e) (Some High) (Some (label (analyzeSentiment message))))
               (c_id (fst (ensure_case now uid message sp st)))
     \<and> level (computeSLA (sla_vars e) (Some High) (Some (label (analyzeSentiment message)))) = Express
     \<and> (\<exists>c. find_case uid (sp_orderId sp) (sp_productIndex sp) (snd (chat e now uid (Some message) st)) = Some c
            \<and> c_id c = c_id (fst (ensure_case now uid message sp st))
            \<and> c_priority c = High
            \<and> c_description c = ''[Refund Request] '' @ message
            \<and> c_status c = Open)
     \<and> outbox (snd (chat e now uid (Some message) st))
           = outbox st @
             [(UserRoom uid, ChatReply uid (sp_orderId sp) (sp_productIndex sp)
                 (Some (c_id (fst (ensure_case now uid message sp st)))) SrcRefund REFUND_REPLY now),
              (UserRoom uid, CaseStatus (c_id (fst (ensure_case now uid message sp st))) Open),
              (AgentsRoom, ChatReply uid (sp_orderId sp) (sp_productIndex sp)
                 (Some (c_id (fst (ensure_case now uid message sp st)))) SrcRefund REFUND_REPLY now)]
     \<and> redis_lrange (chats (snd (chat e now uid (Some message) st))) (chat_key_of uid sp) now
           = redis_lrange (chats st) (chat_key_of uid sp) now @
             [\<lparr>t_prompt = message, t_reply = Some REFUND_REPLY, t_orderId = sp_orderId sp,
               t_productIndex = sp_productIndex sp,
               t_caseId = Some (c_id (fst (ensure_case now uid message sp st))),
               t_timestamp = now, t_source = None, t_score = None\<rparr>]
     \<and> new_calls st (snd (chat e now uid (Some message) st))
           = [IndexCase (c_id (fst (ensure_case now uid message sp st))),
              GetEmbedding (index_text ((fst (ensure_case now uid message sp st))
                     \<lparr>c_description := ''[Refund Request] '' @ message, c_priority := High,
                      c_domain := sp_domain sp, c_status := Open\<rparr>))]
     \<and> \<not> list_ex is_checkFaq (new_calls st (snd (chat e now uid (Some message) st)))"
proof -
  note path = chat_refund_path [OF assms(1) assms(3) assms(4) assms(2) assms(5), of e]
  have sla: "level (computeSLA (sla_vars e) (Some High) (Some (label (analyzeSentiment message)))) = Express"
    by (simp add: computeSLA_def Let_def)
  have calls: "new_calls st (snd (chat e now uid (Some message) st))
           = [IndexCase (c_id (fst (ensure_case now uid message sp st))),
              GetEmbedding (index_text ((fst (ensure_case now uid message sp st))
                     \<lparr>c_description := ''[Refund Request] '' @ message, c_priority := High,
                      c_domain := sp_domain sp, c_status := Open\<rparr>))]"
    by (simp add: new_calls_def path(4))
  have nofaq: "\<not> list_ex is_checkFaq (new_calls st (snd (chat e now uid (Some message) st)))"
    by (simp add: calls)
  have stored: "\<exists>c. find_case uid (sp_orderId sp) (sp_productIndex sp) (snd (chat e now uid (Some message) st)) = Some c
            \<and> c_id c = c_id (fst (ensure_case now uid message sp st))
            \<and> c_priority c = High
            \<and> c_description c = ''[Refund Request] '' @ message
            \<and> c_status c = Open"
    by (simp add: path(2))
  from path(1) sla stored path(3) path(5) calls nofaq show ?thesis
    by (intro conjI)
qed

theorem C1_refund_path_before_faq_witness:
  "fst (checkFaq ex_env ''I want a refund'' (Some ECommerce) (ex_state InProgress Map.empty))
      = Inr (Some \<lparr>answer = ''Track it under My Orders.'', hit_score = 1\<rparr>)
   \<and> fst (chat ex_env 1000 42 (Some ''I want a refund'') (ex_state InProgress Map.empty))
      = ChatEscalated REFUND_REPLY \<lparr>level = Express, targetMinutes = 15\<rparr> 7
   \<and> \<not> list_ex is_checkFaq
        (new_calls (ex_state InProgress Map.empty)
           (snd (chat ex_env 1000 42 (Some ''I want a refund'') (ex_state InProgress Map.empty))))"
proof -
  have h1: "''I want a refund'' \<noteq> []" by simp
  have h2: "isRefund ''I want a refund''" by code_simp
  have h3: "fst (load_user 42 1000 (ex_state InProgress Map.empty)) = Some ex_user" by code_simp
  have h4: "redis_get (selected (ex_state InProgress Map.empty)) 42 1000 = Some ex_product" by code_simp
  have h5: "\<not> isAgentOnly (Some (c_id (fst (ensure_case 1000 42 ''I want a refund'' ex_product
                (ex_state InProgress Map.empty))))) 1000 (ex_state InProgress Map.empty)"
    by code_simp
  have v1: "c_id (fst (ensure_case 1000 42 ''I want a refund'' ex_product (ex_state InProgress Map.empty))) = 7"
    by code_simp
  have v2: "computeSLA (sla_vars ex_env) (Some High) (Some (label (analyzeSentiment ''I want a refund'')))
              = \<lparr>level = Express, targetMinutes = 15\<rparr>"
    by code_simp
  have faq: "fst (checkFaq ex_env ''I want a refund'' (Some ECommerce) (ex_state InProgress Map.empty))
      = Inr (Some \<lparr>answer = ''Track it under My Orders.'', hit_score = 1\<rparr>)"
    by (simp add: checkFaq_def checkFaq_try_def getEmbedding_def Faq_find_def ex_env_def ex_state_def
        ex_faq_def log_call_def env_number_def matches_filter_def js_slice_to_def
        sort_by_score_desc_def js_index_def cosineSimilarity_def cosine_range_def cosine_step_def
        or0_def upt_rec slice0_def)
  from C1_refund_path_before_faq [OF h1 h2 h3 h4 h5, of ex_env] faq show ?thesis
    by (simp only: v1 v2) simp
qed

text \<open>
  C10. When a valid chat request with a refund keyword finds an existing case for the
  selected product and the agent-only lock of that case is not active, the stored case
  afterwards is the old one with its description replaced by the refund-tagged text, its
  priority by high, its domain by the selected product's and its status by open, whatever
  these fields were before; in particular an in-progress case goes back to open.
\<close>

theorem C10_refund_resets_existing_case:
  assumes "message \<noteq> []" and "isRefund message"
    and "fst (load_user uid now st) = Some userObj"
    and "redis_get (selected st) uid now = Some sp"
    and "find_case uid (sp_orderId sp) (sp_productIndex sp) st = Some c"
    and "\<not> isAgentOnly (Some (c_id c)) now st"
  shows "find_case uid (sp_orderId sp) (sp_productIndex sp) (snd (chat e now uid (Some message) st))
           = Some (c\<lparr>c_description := ''[Refund Request] '' @ message, c_priority := High,
                     c_domain := sp_domain sp, c_status := Open\<rparr>)
     \<and> cases (snd (chat e now uid (Some message) st))
           = map (\<lambda>d. if c_id d = c_id c
                      then c\<lparr>c_description := ''[Refund Request] '' @ message, c_priority := High,
                             c_domain := sp_domain sp, c_status := Open\<rparr>
                      else d) (cases st)"
proof -
  have ens: "ensure_case now uid message sp st = (c, st)"
    using assms(5) by (rule ensure_case_existing)
  have unlocked: "\<not> isAgentOnly (Some (c_id (fst (ensure_case now uid message sp st)))) now st"
    using assms(6) by (simp add: ens)
  note path = chat_refund_path [OF assms(1) assms(3) assms(4) assms(2) unlocked, of e]
  from path(2) path(6) show ?thesis
    by (simp add: ens)
qed

theorem C10_refund_resets_existing_case_witness:
  "find_case 42 ''ORD1001'' 0
      (snd (chat ex_env 1000 42 (Some ''I want a refund'') (ex_state InProgress Map.empty)))
     = Some ((ex_case InProgress)\<lparr>c_description := ''[Refund Request] I want a refund'',
               c_priority := High, c_domain := ECommerce, c_status := Open\<rparr>)
   \<and> c_status (ex_case InProgress) = InProgress
   \<and> cases (snd (chat ex_env 1000 42 (Some ''I want a refund'') (ex_state InProgress Map.empty)))
     = [(ex_case InProgress)\<lparr>c_description := ''[Refund Request] I want a refund'',
               c_priority := High, c_domain := ECommerce, c_status := Open\<rparr>]"
proof -
  have h1: "''I want a refund'' \<noteq> []" by simp
  have h2: "isRefund ''I want a refund''" by code_simp
  have h3: "fst (load_user 42 1000 (ex_state InProgress Map.empty)) = Some ex_user" by code_simp
  have h4: "redis_get (selected (ex_state InProgress Map.empty)) 42 1000 = Some ex_product" by code_simp
  have h5: "find_case 42 (sp_orderId ex_product) (sp_productIndex ex_product) (ex_state InProgress Map.empty)
              = Some (ex_case InProgress)"
    by code_simp
  have h6: "\<not> isAgentOnly (Some (c_id (ex_case InProgress))) 1000 (ex_state InProgress Map.empty)"
    by code_simp
  have v: "sp_orderId ex_product = ''ORD1001''" "sp_productIndex ex_product = 0"
    "sp_domain ex_product = ECommerce" "cases (ex_state InProgress Map.empty) = [ex_case InProgress]"
    "c_status (ex_case InProgress) = InProgress"
    by (simp_all add: ex_product_def ex_state_def ex_case_def)
  from C10_refund_resets_existing_case [OF h1 h2 h3 h4 h5 h6, of ex_env] show ?thesis
    by (simp add: v)
qed

section \<open>Agent responses\<close>

text \<open>
  C4 as stated fails on a resolved case: the update sets the status to in-progress
  without looking at the current status.
\<close>

theorem C4_resolved_case_goes_in_progress:
  "map c_status (cases (ex_state Resolved Map.empty)) = [Resolved]
   \<and> map c_status (cases (snd (add_response 1000 9 AdminRole 7 (Some ''We are on it'')
                                   (ex_state Resolved Map.empty)))) = [InProgress]"
  by code_simp

text \<open>
  C4, amended. For every existing case, an agent response (posted by an admin with a
  non-empty message) is appended to the case's response list and the status becomes
  in-progress whatever it was before, also when the case was resolved; the agent-only lock
  of the case is active afterwards.
\<close>

theorem C4_agent_response_appended:
  assumes "message \<noteq> []" and "find_case_by_id i st = Some c"
  shows "fst (add_response now uid AdminRole i (Some message) st)
           = ResponseAdded (c\<lparr>c_responses := c_responses c @
                                  [\<lparr>r_adminId = Some uid, r_message = message, r_timestamp = now\<rparr>],
                                c_updatedAt := now, c_status := InProgress\<rparr>)
     \<and> find_case_by_id i (snd (add_response now uid AdminRole i (Some message) st))
           = Some (c\<lparr>c_responses := c_responses c @
                                  [\<lparr>r_adminId = Some uid, r_message = message, r_timestamp = now\<rparr>],
                                c_updatedAt := now, c_status := InProgress\<rparr>)
     \<and> isAgentOnly (Some i) now (snd (add_response now uid AdminRole i (Some message) st))"
proof -
  let ?c1 = "c\<lparr>c_responses := c_responses c @
                  [\<lparr>r_adminId = Some uid, r_message = message, r_timestamp = now\<rparr>],
                c_updatedAt := now, c_status := InProgress\<rparr>"
  have id: "c_id c = i"
    using assms(2) by (auto simp: find_case_by_id_def find_Some_iff)
  have saved: "find_case_by_id i (save_case ?c1 st) = Some ?c1"
    by (rule find_case_by_id_save [OF assms(2)]) (simp add: id)
  have r: "add_response now uid AdminRole i (Some message) st
             = (ResponseAdded ?c1,
                setAgentOnly (Some i) now
                  (emit AgentsRoom (ChatReply (c_userId c) (c_orderId c) (c_productIndex c) (Some i) SrcAgent message now)
                  (emit (UserRoom (c_userId c)) (ChatReply (c_userId c) (c_orderId c) (c_productIndex c) (Some i) SrcAgent message now)
                  (emit (UserRoom (c_userId c)) (CaseStatus i InProgress)
                  (emit (CaseRoom i) (CaseStatus i InProgress)
                  (emit (UserRoom (c_userId c)) (CaseMessage i message now)
                  (emit (CaseRoom i) (CaseMessage i message now) (save_case ?c1 st))))))))"
    using assms by (simp add: add_response_def Let_def)
  have lock: "isAgentOnly (Some i) now (setAgentOnly (Some i) now s)" for s
    by (simp add: isAgentOnly_def setAgentOnly_def redis_get_def redis_set_ex_def AGENT_ONLY_TTL_def)
  have found: "find_case_by_id i (snd (add_response now uid AdminRole i (Some message) st)) = Some ?c1"
    using saved by (simp add: r find_case_by_id_def)
  from r found lock show ?thesis by simp
qed

theorem C4_agent_response_appended_witness:
  "fst (add_response 1000 9 AdminRole 7 (Some ''We are on it'') (ex_state Resolved Map.empty))
     = ResponseAdded ((ex_case Resolved)\<lparr>c_responses := c_responses (ex_case Resolved) @
                          [\<lparr>r_adminId = Some 9, r_message = ''We are on it'', r_timestamp = 1000\<rparr>],
                        c_updatedAt := 1000, c_status := InProgress\<rparr>)
   \<and> isAgentOnly (Some 7) 1000
        (snd (add_response 1000 9 AdminRole 7 (Some ''We are on it'') (ex_state Resolved Map.empty)))"
proof -
  have h1: "''We are on it'' \<noteq> []" by simp
  have h2: "find_case_by_id 7 (ex_state Resolved Map.empty) = Some (ex_case Resolved)" by code_simp
  from C4_agent_response_appended [OF h1 h2, of 1000 9] show ?thesis by simp
qed

section \<open>Errors inside the FAQ matcher and the case-memory search\<close>

lemma checkFaq_cases:
  "fst (checkFaq e message dmn st)
     = (case fst (checkFaq_try e message dmn (log_call (CheckFaq message dmn) st)) of
          Inl err \<Rightarrow> Inr None
        | Inr r \<Rightarrow> Inr r)"
  by (simp add: checkFaq_def split: prod.splits sum.splits)

lemma checkFaq_not_Inl: "fst (checkFaq e message dmn st) \<noteq> Inl err"
  by (simp add: checkFaq_cases split: sum.splits)

lemma checkFaq_try_embedding_down:
  "embedding_api e (trace st) (slice0 512 message) = None
   \<Longrightarrow> fst (checkFaq_try e message dmn st) = Inl EmbeddingFailed"
  by (simp add: checkFaq_try_def getEmbedding_def Let_def)

lemma searchSimilarCases_cases:
  "fst (searchSimilarCases e text dmn k st)
     = (case fst (searchSimilarCases_try e text dmn k (log_call (SearchSimilarCases text dmn k) st)) of
          Inl err \<Rightarrow> Inr []
        | Inr r \<Rightarrow> Inr r)"
  by (simp add: searchSimilarCases_def split: prod.splits sum.splits)

lemma searchSimilarCases_not_Inl: "fst (searchSimilarCases e text dmn k st) \<noteq> Inl err"
  by (simp add: searchSimilarCases_cases split: sum.splits)

lemma searchSimilarCases_try_embedding_down:
  "embedding_api e (trace st) (slice0 512 text) = None
   \<Longrightarrow> fst (searchSimilarCases_try e text dmn k st) = Inl EmbeddingFailed"
  by (simp add: searchSimilarCases_try_def getEmbedding_def)

lemma checkFaq_fields [simp]:
  "users (snd (checkFaq e message dmn st)) = users st"
  "cases (snd (checkFaq e message dmn st)) = cases st"
  "next_id (snd (checkFaq e message dmn st)) = next_id st"
  "faqs (snd (checkFaq e message dmn st)) = faqs st"
  "memories (snd (checkFaq e message dmn st)) = memories st"
  "user_cache (snd (checkFaq e message dmn st)) = user_cache st"
  "selected (snd (checkFaq e message dmn st)) = selected st"
  "agent_only (snd (checkFaq e message dmn st)) = agent_only st"
  "chats (snd (checkFaq e message dmn st)) = chats st"
  "outbox (snd (checkFaq e message dmn st)) = outbox st"
  by (simp_all add: checkFaq_def checkFaq_try_def getEmbedding_def Faq_find_def log_call_def Let_def
      split: option.splits sum.splits)

lemma searchSimilarCases_fields [simp]:
  "users (snd (searchSimilarCases e text dmn k st)) = users st"
  "cases (snd (searchSimilarCases e text dmn k st)) = cases st"
  "next_id (snd (searchSimilarCases e text dmn k st)) = next_id st"
  "faqs (snd (searchSimilarCases e text dmn k st)) = faqs st"
  "memories (snd (searchSimilarCases e text dmn k st)) = memories st"
  "user_cache (snd (searchSimilarCases e text dmn k st)) = user_cache st"
  "selected (snd (searchSimilarCases e text dmn k st)) = selected st"
  "agent_only (snd (searchSimilarCases e text dmn k st)) = agent_only st"
  "chats (snd (searchSimilarCases e text dmn k st)) = chats st"
  "outbox (snd (searchSimilarCases e text dmn k st)) = outbox st"
  by (simp_all add: searchSimilarCases_def searchSimilarCases_try_def getEmbedding_def
      CaseMemory_find_def log_call_def split: option.splits sum.splits)

lemma callGemini_loop_fields [simp]:
  "users (snd (callGemini_loop e p ms st)) = users st"
  "cases (snd (callGemini_loop e p ms st)) = cases st"
  "next_id (snd (callGemini_loop e p ms st)) = next_id st"
  "faqs (snd (callGemini_loop e p ms st)) = faqs st"
  "memories (snd (callGemini_loop e p ms st)) = memories st"
  "user_cache (snd (callGemini_loop e p ms st)) = user_cache st"
  "selected (snd (callGemini_loop e p ms st)) = selected st"
  "agent_only (snd (callGemini_loop e p ms st)) = agent_only st"
  "chats (snd (callGemini_loop e p ms st)) = chats st"
  "outbox (snd (callGemini_loop e p ms st)) = outbox st"
  by (induction ms arbitrary: st; simp add: Let_def split: gemini_outcome.splits)+

lemma callGemini_fields [simp]:
  "users (snd (callGemini e p st)) = users st"
  "cases (snd (callGemini e p st)) = cases st"
  "next_id (snd (callGemini e p st)) = next_id st"
  "faqs (snd (callGemini e p st)) = faqs st"
  "memories (snd (callGemini e p st)) = memories st"
  "user_cache (snd (callGemini e p st)) = user_cache st"
  "selected (snd (callGemini e p st)) = selected st"
  "agent_only (snd (callGemini e p st)) = agent_only st"
  "chats (snd (callGemini e p st)) = chats st"
  "outbox (snd (callGemini e p st)) = outbox st"
  by (simp_all add: callGemini_def)

text \<open>The first component of each stage's result.\<close>

lemma refund_stage_fst:
  "\<exists>r s i. fst (refund_stage e now uid message sp st) = ChatEscalated r s i"
  by (simp add: refund_stage_def Let_def split_def)

lemma faq_stage_fst:
  "fst (faq_stage now uid message sp h st) = ChatFaq (answer h) (hit_score h)"
  by (simp add: faq_stage_def Let_def)

lemma memory_stage_fst:
  "\<exists>r s l. fst (memory_stage e now uid message sp b similar st) = ChatMemory r s l"
  by (simp add: memory_stage_def Let_def)

lemma llm_stage_fst:
  "\<exists>r s i. fst (llm_stage e now uid userObj message sp st) = ChatEscalated r s i"
  by (simp add: llm_stage_def Let_def split_def)

lemma agent_only_stage_fst:
  "fst (agent_only_stage now uid message sp c st) = ChatQueued (c_id c)"
  by (simp add: agent_only_stage_def Let_def)

text \<open>
  Since neither stage function throws, the automated stages are this chain.
\<close>

lemma automated_stages_chain:
  fixes e message sp st
  defines "K \<equiv> (case SIM_TOP_K e of None \<Rightarrow> 3 | Some k \<Rightarrow> k)"
    and "f \<equiv> checkFaq e message (Some (sp_domain sp)) st"
  defines "m \<equiv> searchSimilarCases e message (Some (sp_domain sp)) K (snd f)"
  shows "automated_stages e now uid userObj message sp st =
     (if isRefund message then refund_stage e now uid message sp st
      else case fst f of
             Inr (Some faqHit) \<Rightarrow> faq_stage now uid message sp faqHit (snd f)
           | _ \<Rightarrow>
               (case fst m of
                  Inr (best # rest) \<Rightarrow>
                    if snd best \<ge> env_number (SIM_CASE_THRESHOLD e) (72 / 100)
                    then memory_stage e now uid message sp best (best # rest) (snd m)
                    else llm_stage e now uid userObj message sp (snd m)
                | _ \<Rightarrow> llm_stage e now uid userObj message sp (snd m)))"
proof (cases "isRefund message")
  case True
  then show ?thesis by (simp add: automated_stages_def)
next
  case False
  obtain r1 s1 where f: "f = (r1, s1)" by (cases f)
  have r1: "r1 \<noteq> Inl err" for err
    using checkFaq_not_Inl [of e message "Some (sp_domain sp)" st err] f by (simp add: f_def)
  show ?thesis
  proof (cases r1)
    case (Inl err)
    with r1 [of err] show ?thesis by simp
  next
    case (Inr hit)
    show ?thesis
    proof (cases hit)
      case (Some h)
      with False Inr f show ?thesis
        by (simp add: automated_stages_def f_def [symmetric])
    next
      case None
      obtain r2 s2 where m: "searchSimilarCases e message (Some (sp_domain sp)) K s1 = (r2, s2)"
        by (cases "searchSimilarCases e message (Some (sp_domain sp)) K s1")
      have r2: "r2 \<noteq> Inl err" for err
        using searchSimilarCases_not_Inl [of e message "Some (sp_domain sp)" K s1 err] m by simp
      have m': "m = (r2, s2)"
        using m f by (simp add: m_def)
      show ?thesis
      proof (cases r2)
        case (Inl err)
        with r2 [of err] show ?thesis by simp
      next
        case (Inr similar)
        with False None \<open>r1 = Inr hit\<close> f m m' show ?thesis
          by (cases similar)
             (simp_all add: automated_stages_def f_def [symmetric] K_def [symmetric] Let_def)
      qed
    qed
  qed
qed

lemma stages_not_500:
  "fst (refund_stage e now uid message sp st) \<noteq> Http500 s"
  "fst (faq_stage now uid message sp h st) \<noteq> Http500 s"
  "fst (memory_stage e now uid message sp b similar st) \<noteq> Http500 s"
  "fst (llm_stage e now uid userObj message sp st) \<noteq> Http500 s"
  "fst (agent_only_stage now uid message sp c st) \<noteq> Http500 s"
  by (simp_all add: refund_stage_def faq_stage_def memory_stage_def llm_stage_def
      agent_only_stage_def Let_def split_def)

lemma automated_stages_not_500:
  "fst (automated_stages e now uid userObj message sp st) \<noteq> Http500 s"
  by (simp add: automated_stages_chain stages_not_500 split: sum.splits option.splits list.splits)

lemma chat_not_500: "fst (chat e now uid body st) \<noteq> Http500 s"
  by (simp add: chat_def automated_stages_not_500 stages_not_500 Let_def split_def
      split: option.splits prod.splits)


lemma checkFaq_try_store_fails:
  "faq_find_fails e (trace st @ [GetEmbedding (slice0 512 message)])
   \<Longrightarrow> \<exists>err. fst (checkFaq_try e message dmn st) = Inl err"
  by (simp add: checkFaq_try_def getEmbedding_def Faq_find_def Let_def split: option.splits)

lemma searchSimilarCases_try_store_fails:
  "memory_store_fails e (trace st @ [GetEmbedding (slice0 512 text)])
   \<Longrightarrow> \<exists>err. fst (searchSimilarCases_try e text dmn k st) = Inl err"
  by (simp add: searchSimilarCases_try_def getEmbedding_def CaseMemory_find_def split: option.splits)

text \<open>
  C8. \<open>checkFaq\<close> never throws: whenever the body of its \<open>try\<close> block throws, in
  particular when the embedding request fails or the query on the FAQ collection fails,
  it returns none. \<open>searchSimilarCases\<close> never throws: in the same situations it returns
  the empty list. The chat handler therefore never answers 500 because of these two
  stages (the only source of a 500 in this model).
\<close>

theorem C8_stage_errors_swallowed:
  "(\<exists>r. fst (checkFaq e message dmn st) = Inr r)
   \<and> (fst (checkFaq_try e message dmn (log_call (CheckFaq message dmn) st)) = Inl err
        \<longrightarrow> fst (checkFaq e message dmn st) = Inr None)
   \<and> (embedding_api e (trace st @ [CheckFaq message dmn]) (slice0 512 message) = None
        \<longrightarrow> fst (checkFaq e message dmn st) = Inr None)
   \<and> (faq_find_fails e (trace st @ [CheckFaq message dmn, GetEmbedding (slice0 512 message)])
        \<longrightarrow> fst (checkFaq e message dmn st) = Inr None)
   \<and> (\<exists>r. fst (searchSimilarCases e message dmn k st) = Inr r)
   \<and> (fst (searchSimilarCases_try e message dmn k (log_call (SearchSimilarCases message dmn k) st)) = Inl err
        \<longrightarrow> fst (searchSimilarCases e message dmn k st) = Inr [])
   \<and> (embedding_api e (trace st @ [SearchSimilarCases message dmn k]) (slice0 512 message) = None
        \<longrightarrow> fst (searchSimilarCases e message dmn k st) = Inr [])
   \<and> (memory_store_fails e (trace st @ [SearchSimilarCases message dmn k, GetEmbedding (slice0 512 message)])
        \<longrightarrow> fst (searchSimilarCases e message dmn k st) = Inr [])
   \<and> fst (chat e now uid body st1) \<noteq> Http500 s"
proof (intro conjI impI)
  show "\<exists>r. fst (checkFaq e message dmn st) = Inr r"
    by (simp add: checkFaq_cases split: sum.splits)
  show "\<exists>r. fst (searchSimilarCases e message dmn k st) = Inr r"
    by (simp add: searchSimilarCases_cases split: sum.splits)
  show "fst (chat e now uid body st1) \<noteq> Http500 s"
    by (rule chat_not_500)
next
  assume "fst (checkFaq_try e message dmn (log_call (CheckFaq message dmn) st)) = Inl err"
  then show "fst (checkFaq e message dmn st) = Inr None"
    by (simp add: checkFaq_cases)
next
  assume "embedding_api e (trace st @ [CheckFaq message dmn]) (slice0 512 message) = None"
  then have "fst (checkFaq_try e message dmn (log_call (CheckFaq message dmn) st)) = Inl EmbeddingFailed"
    by (intro checkFaq_try_embedding_down) simp
  then show "fst (checkFaq e message dmn st) = Inr None"
    by (simp add: checkFaq_cases)
next
  assume "faq_find_fails e (trace st @ [CheckFaq message dmn, GetEmbedding (slice0 512 message)])"
  then have "\<exists>err. fst (checkFaq_try e message dmn (log_call (CheckFaq message dmn) st)) = Inl err"
    by (intro checkFaq_try_store_fails) simp
  then show "fst (checkFaq e message dmn st) = Inr None"
    by (auto simp add: checkFaq_cases)
next
  assume "fst (searchSimilarCases_try e message dmn k (log_call (SearchSimilarCases message dmn k) st)) = Inl err"
  then show "fst (searchSimilarCases e message dmn k st) = Inr []"
    by (simp add: searchSimilarCases_cases)
next
  assume "embedding_api e (trace st @ [SearchSimilarCases message dmn k]) (slice0 512 message) = None"
  then have "fst (searchSimilarCases_try e message dmn k (log_call (SearchSimilarCases message dmn k) st))
               = Inl EmbeddingFailed"
    by (intro searchSimilarCases_try_embedding_down) simp
  then show "fst (searchSimilarCases e message dmn k st) = Inr []"
    by (simp add: searchSimilarCases_cases)
next
  assume "memory_store_fails e (trace st @ [SearchSimilarCases message dmn k, GetEmbedding (slice0 512 message)])"
  then have "\<exists>err. fst (searchSimilarCases_try e message dmn k (log_call (SearchSimilarCases message dmn k) st)) = Inl err"
    by (intro searchSimilarCases_try_store_fails) simp
  then show "fst (searchSimilarCases e message dmn k st) = Inr []"
    by (auto simp add: searchSimilarCases_cases)
qed

theorem C8_stage_errors_swallowed_witness:
  "fst (checkFaq_try ex_env_down ''hello there'' (Some ECommerce)
          (log_call (CheckFaq ''hello there'' (Some ECommerce)) (ex_state Open Map.empty)))
     = Inl EmbeddingFailed
   \<and> fst (checkFaq ex_env_down ''hello there'' (Some ECommerce) (ex_state Open Map.empty)) = Inr None
   \<and> fst (searchSimilarCases_try ex_env_down ''hello there'' (Some ECommerce) 3
          (log_call (SearchSimilarCases ''hello there'' (Some ECommerce) 3) (ex_state Open Map.empty)))
     = Inl EmbeddingFailed
   \<and> fst (searchSimilarCases ex_env_down ''hello there'' (Some ECommerce) 3 (ex_state Open Map.empty)) = Inr []
   \<and> fst (chat ex_env_down 1000 42 (Some ''hello there'') (ex_state Open Map.empty))
       \<noteq> Http500 ''Failed to process chat''
   \<and> fst (checkFaq ex_env_store_down ''hello there'' (Some ECommerce) (ex_state Open Map.empty)) = Inr None
   \<and> fst (searchSimilarCases ex_env_store_down ''hello there'' (Some ECommerce) 3 (ex_state Open Map.empty)) = Inr []"
proof -
  have h1: "fst (checkFaq_try ex_env_down ''hello there'' (Some ECommerce)
          (log_call (CheckFaq ''hello there'' (Some ECommerce)) (ex_state Open Map.empty)))
     = Inl EmbeddingFailed"
    by (simp add: checkFaq_try_def getEmbedding_def ex_env_down_def ex_env_def Let_def)
  have h2: "fst (searchSimilarCases_try ex_env_down ''hello there'' (Some ECommerce) 3
          (log_call (SearchSimilarCases ''hello there'' (Some ECommerce) 3) (ex_state Open Map.empty)))
     = Inl EmbeddingFailed"
    by (simp add: searchSimilarCases_try_def getEmbedding_def ex_env_down_def ex_env_def)
  have h3: "embedding_api ex_env_down
              (trace (ex_state Open Map.empty) @ [CheckFaq ''hello there'' (Some ECommerce)])
              (slice0 512 ''hello there'') = None"
    "embedding_api ex_env_down
              (trace (ex_state Open Map.empty) @ [SearchSimilarCases ''hello there'' (Some ECommerce) 3])
              (slice0 512 ''hello there'') = None"
    by (simp_all add: ex_env_down_def ex_env_def)
  have h4: "faq_find_fails ex_env_store_down
              (trace (ex_state Open Map.empty)
                 @ [CheckFaq ''hello there'' (Some ECommerce), GetEmbedding (slice0 512 ''hello there'')])"
    "memory_store_fails ex_env_store_down
              (trace (ex_state Open Map.empty)
                 @ [SearchSimilarCases ''hello there'' (Some ECommerce) 3, GetEmbedding (slice0 512 ''hello there'')])"
    by (simp_all add: ex_env_store_down_def ex_env_def)
  from C8_stage_errors_swallowed [where e = ex_env_down and message = "''hello there''"
      and dmn = "Some ECommerce" and st = "ex_state Open Map.empty" and err = EmbeddingFailed and k = 3
      and now = 1000 and uid = 42 and body = "Some ''hello there''" and ?st1.0 = "ex_state Open Map.empty"
      and s = "''Failed to process chat''"]
    C8_stage_errors_swallowed [where e = ex_env_store_down and message = "''hello there''"
      and dmn = "Some ECommerce" and st = "ex_state Open Map.empty" and k = 3]
    h1 h2 h3 h4
  show ?thesis by blast
qed


section \<open>The agent-only short-circuit\<close>

lemma load_user_known:
  "users st uid = Some u \<Longrightarrow> \<exists>userObj. fst (load_user uid now st) = Some userObj"
  by (simp add: load_user_def split: option.splits)

lemma chat_locked_path:
  assumes msg: "message \<noteq> []" and user: "fst (load_user uid now st) = Some userObj"
    and sel: "redis_get (selected st) uid now = Some sp"
    and found: "find_case uid (sp_orderId sp) (sp_productIndex sp) st = Some c"
    and locked: "isAgentOnly (Some (c_id c)) now st"
  shows "fst (chat e now uid (Some message) st) = ChatQueued (c_id c)"
    and "trace (snd (chat e now uid (Some message) st)) = trace st"
    and "cases (snd (chat e now uid (Some message) st)) = cases st"
    and "agent_only (snd (chat e now uid (Some message) st)) = agent_only st"
    and "selected (snd (chat e now uid (Some message) st)) = selected st"
    and "users (snd (chat e now uid (Some message) st)) = users st"
    and "outbox (snd (chat e now uid (Some message) st))
           = outbox st @ [(AgentsRoom, ChatUser uid (sp_orderId sp) (sp_productIndex sp) (c_id c) message now)]"
    and "redis_lrange (chats (snd (chat e now uid (Some message) st))) (chat_key_of uid sp) now
           = redis_lrange (chats st) (chat_key_of uid sp) now @
             [\<lparr>t_prompt = message, t_reply = None, t_orderId = sp_orderId sp,
               t_productIndex = sp_productIndex sp, t_caseId = Some (c_id c),
               t_timestamp = now, t_source = Some SrcUser, t_score = None\<rparr>]"
proof -
  have ens: "ensure_case now uid message sp st = (c, st)"
    using found by (rule ensure_case_existing)
  have found1: "find_case uid (sp_orderId sp) (sp_productIndex sp) (snd (load_user uid now st)) = Some c"
    using found by (simp add: find_case_def)
  have ens1: "ensure_case now uid message sp (snd (load_user uid now st)) = (c, snd (load_user uid now st))"
    using found1 by (rule ensure_case_existing)
  have chat: "chat e now uid (Some message) st
                = agent_only_stage now uid message sp c (snd (load_user uid now st))"
    using locked by (simp add: chat_valid_unfold [OF msg user sel] ens ens1)
  show "fst (chat e now uid (Some message) st) = ChatQueued (c_id c)"
    by (simp add: chat agent_only_stage_def Let_def)
  show "trace (snd (chat e now uid (Some message) st)) = trace st"
    by (simp add: chat agent_only_stage_def Let_def)
  show "cases (snd (chat e now uid (Some message) st)) = cases st"
    by (simp add: chat agent_only_stage_def Let_def)
  show "agent_only (snd (chat e now uid (Some message) st)) = agent_only st"
    by (simp add: chat agent_only_stage_def Let_def)
  show "selected (snd (chat e now uid (Some message) st)) = selected st"
    by (simp add: chat agent_only_stage_def Let_def)
  show "users (snd (chat e now uid (Some message) st)) = users st"
    by (simp add: chat agent_only_stage_def Let_def)
  show "outbox (snd (chat e now uid (Some message) st))
           = outbox st @ [(AgentsRoom, ChatUser uid (sp_orderId sp) (sp_productIndex sp) (c_id c) message now)]"
    by (simp add: chat agent_only_stage_def Let_def)
  show "redis_lrange (chats (snd (chat e now uid (Some message) st))) (chat_key_of uid sp) now
           = redis_lrange (chats st) (chat_key_of uid sp) now @
             [\<lparr>t_prompt = message, t_reply = None, t_orderId = sp_orderId sp,
               t_productIndex = sp_productIndex sp, t_caseId = Some (c_id c),
               t_timestamp = now, t_source = Some SrcUser, t_score = None\<rparr>]"
    by (simp add: chat agent_only_stage_def Let_def push_turn_lrange)
qed

lemma chat_locked_step:
  assumes u: "users st uid = Some u"
    and found: "find_case uid oid pidx st = Some c"
    and lock: "agent_only st (c_id c) = Some (v, ex)" and v: "v \<noteq> []"
    and rq: "lock_request st0 uid oid pidx ex rq" and sel0: "selected st = selected st0"
  shows "fst (chat e (fst rq) uid (snd rq) st) = ChatQueued (c_id c)"
    and "trace (snd (chat e (fst rq) uid (snd rq) st)) = trace st"
    and "cases (snd (chat e (fst rq) uid (snd rq) st)) = cases st"
    and "agent_only (snd (chat e (fst rq) uid (snd rq) st)) = agent_only st"
    and "selected (snd (chat e (fst rq) uid (snd rq) st)) = selected st"
    and "users (snd (chat e (fst rq) uid (snd rq) st)) = users st"
    and "outbox (snd (chat e (fst rq) uid (snd rq) st))
           = outbox st @ [(AgentsRoom, ChatUser uid oid pidx (c_id c) (the (snd rq)) (fst rq))]"
    and "redis_lrange (chats (snd (chat e (fst rq) uid (snd rq) st))) (uid, oid, pidx) (fst rq)
           = redis_lrange (chats st) (uid, oid, pidx) (fst rq) @
             [\<lparr>t_prompt = the (snd rq), t_reply = None, t_orderId = oid,
               t_productIndex = pidx, t_caseId = Some (c_id c),
               t_timestamp = fst rq, t_source = Some SrcUser, t_score = None\<rparr>]"
proof -
  obtain now body where rq_eq: "rq = (now, body)" by (cases rq)
  from rq obtain m sp where b: "body = Some m" and m: "m \<noteq> []" and t: "now < ex"
    and sel: "redis_get (selected st) uid now = Some sp"
    and sp: "sp_orderId sp = oid" "sp_productIndex sp = pidx"
    by (auto simp: lock_request_def rq_eq sel0 split: option.splits)
  obtain userObj where user: "fst (load_user uid now st) = Some userObj"
    using load_user_known [OF u] by blast
  have found': "find_case uid (sp_orderId sp) (sp_productIndex sp) st = Some c"
    using found sp by simp
  have locked: "isAgentOnly (Some (c_id c)) now st"
    using lock v t by (simp add: isAgentOnly_def redis_get_def)
  note path = chat_locked_path [OF m user sel found' locked, of e]
  show "fst (chat e (fst rq) uid (snd rq) st) = ChatQueued (c_id c)"
    and "trace (snd (chat e (fst rq) uid (snd rq) st)) = trace st"
    and "cases (snd (chat e (fst rq) uid (snd rq) st)) = cases st"
    and "agent_only (snd (chat e (fst rq) uid (snd rq) st)) = agent_only st"
    and "selected (snd (chat e (fst rq) uid (snd rq) st)) = selected st"
    and "users (snd (chat e (fst rq) uid (snd rq) st)) = users st"
    and "outbox (snd (chat e (fst rq) uid (snd rq) st))
           = outbox st @ [(AgentsRoom, ChatUser uid oid pidx (c_id c) (the (snd rq)) (fst rq))]"
    and "redis_lrange (chats (snd (chat e (fst rq) uid (snd rq) st))) (uid, oid, pidx) (fst rq)
           = redis_lrange (chats st) (uid, oid, pidx) (fst rq) @
             [\<lparr>t_prompt = the (snd rq), t_reply = None, t_orderId = oid,
               t_productIndex = pidx, t_caseId = Some (c_id c),
               t_timestamp = fst rq, t_source = Some SrcUser, t_score = None\<rparr>]"
    using path sp by (simp_all add: rq_eq b chat_key_of_def)
qed


lemma chat_seq_locked:
  assumes "users st uid = Some u" and "find_case uid oid pidx st = Some c"
    and "agent_only st (c_id c) = Some (v, ex)" and "v \<noteq> []"
    and "\<forall>rq \<in> set rqs. lock_request st0 uid oid pidx ex rq" and "selected st = selected st0"
  shows "fst (chat_seq e uid rqs st) = map (\<lambda>rq. ChatQueued (c_id c)) rqs
     \<and> trace (snd (chat_seq e uid rqs st)) = trace st
     \<and> cases (snd (chat_seq e uid rqs st)) = cases st
     \<and> agent_only (snd (chat_seq e uid rqs st)) = agent_only st
     \<and> selected (snd (chat_seq e uid rqs st)) = selected st
     \<and> users (snd (chat_seq e uid rqs st)) = users st
     \<and> outbox (snd (chat_seq e uid rqs st))
          = outbox st @ map (\<lambda>rq. (AgentsRoom, ChatUser uid oid pidx (c_id c) (the (snd rq)) (fst rq))) rqs"
  using assms
proof (induction rqs arbitrary: st)
  case Nil
  then show ?case by simp
next
  case (Cons rq rqs)
  let ?st1 = "snd (chat e (fst rq) uid (snd rq) st)"
  have rq: "lock_request st0 uid oid pidx ex rq"
    using Cons.prems(5) by simp
  note step = chat_locked_step [OF Cons.prems(1) Cons.prems(2) Cons.prems(3) Cons.prems(4) rq Cons.prems(6), of e]
  have ih: "fst (chat_seq e uid rqs ?st1) = map (\<lambda>rq. ChatQueued (c_id c)) rqs
     \<and> trace (snd (chat_seq e uid rqs ?st1)) = trace ?st1
     \<and> cases (snd (chat_seq e uid rqs ?st1)) = cases ?st1
     \<and> agent_only (snd (chat_seq e uid rqs ?st1)) = agent_only ?st1
     \<and> selected (snd (chat_seq e uid rqs ?st1)) = selected ?st1
     \<and> users (snd (chat_seq e uid rqs ?st1)) = users ?st1
     \<and> outbox (snd (chat_seq e uid rqs ?st1))
          = outbox ?st1 @ map (\<lambda>rq. (AgentsRoom, ChatUser uid oid pidx (c_id c) (the (snd rq)) (fst rq))) rqs"
  proof (rule Cons.IH)
    show "users ?st1 uid = Some u" using Cons.prems(1) by (simp add: step(6))
    show "find_case uid oid pidx ?st1 = Some c" using Cons.prems(2) by (simp add: find_case_def step(3))
    show "agent_only ?st1 (c_id c) = Some (v, ex)" using Cons.prems(3) by (simp add: step(4))
    show "v \<noteq> []" by (rule Cons.prems(4))
    show "\<forall>rq \<in> set rqs. lock_request st0 uid oid pidx ex rq" using Cons.prems(5) by simp
    show "selected ?st1 = selected st0" using Cons.prems(6) by (simp add: step(5))
  qed
  have unfold: "chat_seq e uid (rq # rqs) st
      = (fst (chat e (fst rq) uid (snd rq) st) # fst (chat_seq e uid rqs ?st1), snd (chat_seq e uid rqs ?st1))"
    by (simp add: split_def Let_def)
  show ?case
    using ih unfolding unfold by (simp add: step)
qed

lemma chat_seq_append:
  "chat_seq e uid (xs @ ys) st
     = (fst (chat_seq e uid xs st) @ fst (chat_seq e uid ys (snd (chat_seq e uid xs st))),
        snd (chat_seq e uid ys (snd (chat_seq e uid xs st))))"
  by (induction xs arbitrary: st) (simp_all add: split_def Let_def)

text \<open>
  C2. Let the agent-only key of a user's case be set with expiry instant \<open>ex\<close>. Then
  every chat request of that user for that case handled before \<open>ex\<close> is answered
  queued / human-agent; no stage function is entered and no external call is made; the
  case collection and the lock are left as they were; the only events emitted are the
  \<open>chat:user\<close> notifications to the agents room, one per message; and each message is
  appended to the chat log as a turn with a null reply and source user.
\<close>

theorem C2_agent_only_lock_queues_messages:
  assumes "users st uid = Some u" and "find_case uid oid pidx st = Some c"
    and "agent_only st (c_id c) = Some (v, ex)" and "v \<noteq> []"
    and "\<forall>rq \<in> set rqs. lock_request st uid oid pidx ex rq"
  shows "fst (chat_seq e uid rqs st) = map (\<lambda>rq. ChatQueued (c_id c)) rqs
     \<and> new_calls st (snd (chat_seq e uid rqs st)) = []
     \<and> \<not> list_ex is_answer_stage (new_calls st (snd (chat_seq e uid rqs st)))
     \<and> cases (snd (chat_seq e uid rqs st)) = cases st
     \<and> agent_only (snd (chat_seq e uid rqs st)) = agent_only st
     \<and> outbox (snd (chat_seq e uid rqs st))
          = outbox st @ map (\<lambda>rq. (AgentsRoom, ChatUser uid oid pidx (c_id c) (the (snd rq)) (fst rq))) rqs
     \<and> (\<forall>pre rq post. rqs = pre @ rq # post \<longrightarrow>
           redis_lrange (chats (snd (chat_seq e uid (pre @ [rq]) st))) (uid, oid, pidx) (fst rq)
             = redis_lrange (chats (snd (chat_seq e uid pre st))) (uid, oid, pidx) (fst rq) @
               [\<lparr>t_prompt = the (snd rq), t_reply = None, t_orderId = oid,
                 t_productIndex = pidx, t_caseId = Some (c_id c),
                 t_timestamp = fst rq, t_source = Some SrcUser, t_score = None\<rparr>])"
proof -
  note all = chat_seq_locked [OF assms(1) assms(2) assms(3) assms(4) assms(5) refl, of e]
  have calls: "new_calls st (snd (chat_seq e uid rqs st)) = []"
    using all by (simp add: new_calls_def)
  have log: "redis_lrange (chats (snd (chat_seq e uid (pre @ [rq]) st))) (uid, oid, pidx) (fst rq)
             = redis_lrange (chats (snd (chat_seq e uid pre st))) (uid, oid, pidx) (fst rq) @
               [\<lparr>t_prompt = the (snd rq), t_reply = None, t_orderId = oid,
                 t_productIndex = pidx, t_caseId = Some (c_id c),
                 t_timestamp = fst rq, t_source = Some SrcUser, t_score = None\<rparr>]"
    if split: "rqs = pre @ rq # post" for pre rq post
  proof -
    let ?st1 = "snd (chat_seq e uid pre st)"
    have pre: "\<forall>rq \<in> set pre. lock_request st uid oid pidx ex rq"
      and rq: "lock_request st uid oid pidx ex rq"
      using assms(5) split by simp_all
    note inv = chat_seq_locked [OF assms(1) assms(2) assms(3) assms(4) pre refl, of e]
    have u1: "users ?st1 uid = Some u" using assms(1) inv by simp
    have c1: "find_case uid oid pidx ?st1 = Some c" using assms(2) inv by (simp add: find_case_def)
    have l1: "agent_only ?st1 (c_id c) = Some (v, ex)" using assms(3) inv by simp
    have s1: "selected ?st1 = selected st" using inv by simp
    have "snd (chat_seq e uid (pre @ [rq]) st) = snd (chat e (fst rq) uid (snd rq) ?st1)"
      by (simp add: chat_seq_append split_def Let_def)
    then show ?thesis
      using chat_locked_step(8) [OF u1 c1 l1 assms(4) rq s1, of e] by simp
  qed
  from all calls log show ?thesis by simp
qed

theorem C2_agent_only_lock_queues_messages_witness:
  "fst (chat_seq ex_env 42
          [(1000, Some ''hello''), (1500, Some ''I want a refund''), (2000, Some ''where is my order'')]
          (ex_state InProgress [7 \<mapsto> (''1'', 2800)]))
     = [ChatQueued 7, ChatQueued 7, ChatQueued 7]
   \<and> new_calls (ex_state InProgress [7 \<mapsto> (''1'', 2800)])
        (snd (chat_seq ex_env 42
          [(1000, Some ''hello''), (1500, Some ''I want a refund''), (2000, Some ''where is my order'')]
          (ex_state InProgress [7 \<mapsto> (''1'', 2800)]))) = []
   \<and> outbox (snd (chat_seq ex_env 42
          [(1000, Some ''hello''), (1500, Some ''I want a refund''), (2000, Some ''where is my order'')]
          (ex_state InProgress [7 \<mapsto> (''1'', 2800)])))
     = [(AgentsRoom, ChatUser 42 ''ORD1001'' 0 7 ''hello'' 1000),
        (AgentsRoom, ChatUser 42 ''ORD1001'' 0 7 ''I want a refund'' 1500),
        (AgentsRoom, ChatUser 42 ''ORD1001'' 0 7 ''where is my order'' 2000)]
   \<and> redis_lrange
        (chats (snd (chat_seq ex_env 42 [(1000, Some ''hello''), (1500, Some ''I want a refund'')]
                       (ex_state InProgress [7 \<mapsto> (''1'', 2800)]))))
        (42, ''ORD1001'', 0) 1500
     = redis_lrange
        (chats (snd (chat_seq ex_env 42 [(1000, Some ''hello'')]
                       (ex_state InProgress [7 \<mapsto> (''1'', 2800)]))))
        (42, ''ORD1001'', 0) 1500
       @ [\<lparr>t_prompt = ''I want a refund'', t_reply = None, t_orderId = ''ORD1001'',
           t_productIndex = 0, t_caseId = Some 7, t_timestamp = 1500,
           t_source = Some SrcUser, t_score = None\<rparr>]"
proof -
  let ?st = "ex_state InProgress [7 \<mapsto> (''1'', 2800)]"
  have h1: "users ?st 42 = Some ex_user" by (simp add: ex_state_def)
  have h2: "find_case 42 ''ORD1001'' 0 ?st = Some (ex_case InProgress)" by code_simp
  have h3: "agent_only ?st (c_id (ex_case InProgress)) = Some (''1'', 2800)"
    by (simp add: ex_state_def ex_case_def)
  have h4: "''1'' \<noteq> []" by simp
  have h5: "\<forall>rq \<in> set [(1000, Some ''hello''), (1500, Some ''I want a refund''), (2000, Some ''where is my order'')].
              lock_request ?st 42 ''ORD1001'' 0 2800 rq"
    by (simp add: lock_request_def redis_get_def ex_state_def ex_product_def)
  have v: "c_id (ex_case InProgress) = 7" "outbox ?st = []"
    by (simp_all add: ex_case_def ex_state_def)
  note inst = C2_agent_only_lock_queues_messages [OF h1 h2 h3 h4 h5, of ex_env]
  from inst have log: "redis_lrange
        (chats (snd (chat_seq ex_env 42 ([(1000, Some ''hello'')] @ [(1500, Some ''I want a refund'')]) ?st)))
        (42, ''ORD1001'', 0) (fst (1500 :: nat, Some ''I want a refund''))
     = redis_lrange (chats (snd (chat_seq ex_env 42 [(1000, Some ''hello'')] ?st)))
        (42, ''ORD1001'', 0) (fst (1500 :: nat, Some ''I want a refund''))
       @ [\<lparr>t_prompt = the (snd (1500 :: nat, Some ''I want a refund'')), t_reply = None,
           t_orderId = ''ORD1001'', t_productIndex = 0, t_caseId = Some (c_id (ex_case InProgress)),
           t_timestamp = fst (1500 :: nat, Some ''I want a refund''),
           t_source = Some SrcUser, t_score = None\<rparr>]"
    by (elim conjE allE [where x = "[(1000, Some ''hello'')]"] allE [where x = "(1500, Some ''I want a refund'')"]
          allE [where x = "[(2000, Some ''where is my order'')]"]) simp
  from inst log show ?thesis
    by (simp add: v del: chat_seq.simps)
qed

section \<open>Which stages touch the case\<close>

lemma checkFaq_fst_frame:
  "trace st1 = trace st \<Longrightarrow> faqs st1 = faqs st
   \<Longrightarrow> fst (checkFaq e message dmn st1) = fst (checkFaq e message dmn st)"
  by (simp add: checkFaq_def checkFaq_try_def getEmbedding_def Faq_find_def log_call_def Let_def
      split: option.splits sum.splits)

lemma faq_stage_cases [simp]: "cases (snd (faq_stage now uid message sp h st)) = cases st"
  by (simp add: faq_stage_def Let_def)

lemma memory_stage_cases [simp]:
  "cases (snd (memory_stage e now uid message sp b similar st)) = cases st"
  by (simp add: memory_stage_def Let_def)

lemma agent_only_stage_cases [simp]:
  "cases (snd (agent_only_stage now uid message sp c st)) = cases st"
  by (simp add: agent_only_stage_def Let_def)

lemma refund_stage_status:
  assumes "find_case uid (sp_orderId sp) (sp_productIndex sp) st = Some c"
  shows "find_case uid (sp_orderId sp) (sp_productIndex sp) (snd (refund_stage e now uid message sp st))
           = Some (c\<lparr>c_description := ''[Refund Request] '' @ message, c_priority := High,
                     c_domain := sp_domain sp, c_status := Open\<rparr>)"
proof -
  let ?c1 = "c\<lparr>c_description := ''[Refund Request] '' @ message, c_priority := High,
                     c_domain := sp_domain sp, c_status := Open\<rparr>"
  have "find_case uid (sp_orderId sp) (sp_productIndex sp) (save_case ?c1 st) = Some ?c1"
    by (rule find_case_save [OF assms]) (use find_case_SomeD [OF assms] in simp_all)
  then show ?thesis
    by (simp add: refund_stage_existing(2) [OF assms] find_case_def)
qed

lemma llm_stage_status:
  assumes "find_case uid (sp_orderId sp) (sp_productIndex sp) st = Some c"
  shows "find_case uid (sp_orderId sp) (sp_productIndex sp) (snd (llm_stage e now uid userObj message sp st))
           = Some (c\<lparr>c_description := message, c_priority := llm_priority message,
                     c_domain := sp_domain sp,
                     c_status := (if c_status c = Resolved then Open else c_status c)\<rparr>)"
proof -
  let ?p = "\<lparr>p_domain = sp_domain sp, p_userName = u_name userObj, p_userEmail = u_email userObj,
               p_productName = sp_name sp, p_quantity = sp_quantity sp, p_price = sp_price sp,
               p_status = sp_status sp, p_orderId = sp_orderId sp, p_message = message\<rparr>"
  let ?st1 = "snd (callGemini e ?p st)"
  let ?c1 = "c\<lparr>c_description := message, c_priority := llm_priority message,
                     c_domain := sp_domain sp,
                     c_status := (if c_status c = Resolved then Open else c_status c)\<rparr>"
  have found1: "find_case uid (sp_orderId sp) (sp_productIndex sp) ?st1 = Some c"
    using assms by (simp add: find_case_def)
  have up: "llm_upsert now uid message (llm_priority message) sp ?st1 = (?c1, save_case ?c1 ?st1)"
    using found1 by (simp add: llm_upsert_def Let_def)
  have saved: "find_case uid (sp_orderId sp) (sp_productIndex sp) (save_case ?c1 ?st1) = Some ?c1"
    by (rule find_case_save [OF found1]) (use find_case_SomeD [OF assms] in simp_all)
  have "cases (snd (llm_stage e now uid userObj message sp st)) = cases (save_case ?c1 ?st1)"
    by (simp add: llm_stage_def Let_def split_def up)
  then show ?thesis
    using saved by (simp add: find_case_def)
qed

text \<open>
  What the automated stages do to an existing case, read off the kind of response.
\<close>

lemma automated_stages_status:
  assumes found: "find_case uid (sp_orderId sp) (sp_productIndex sp) st = Some c"
  shows "(case fst (automated_stages e now uid userObj message sp st) of
            ChatEscalated r s i \<Rightarrow>
              (\<exists>c1. find_case uid (sp_orderId sp) (sp_productIndex sp)
                        (snd (automated_stages e now uid userObj message sp st)) = Some c1
                    \<and> c_id c1 = c_id c
                    \<and> c_status c1 = (if isRefund message \<or> c_status c = Resolved then Open else c_status c))
          | ChatFaq r sc \<Rightarrow> cases (snd (automated_stages e now uid userObj message sp st)) = cases st
          | ChatMemory r sc l \<Rightarrow> cases (snd (automated_stages e now uid userObj message sp st)) = cases st
          | _ \<Rightarrow> False)"
proof -
  define K where "K = (case SIM_TOP_K e of None \<Rightarrow> 3 | Some k \<Rightarrow> (k::int))"
  define f where "f = checkFaq e message (Some (sp_domain sp)) st"
  define m where "m = searchSimilarCases e message (Some (sp_domain sp)) K (snd f)"
  have cm: "cases (snd m) = cases st"
    by (simp add: m_def f_def)
  have fm: "find_case uid (sp_orderId sp) (sp_productIndex sp) (snd m) = Some c"
    using found by (simp add: find_case_def cm)
  have llm_fact: "(case fst (llm_stage e now uid userObj message sp (snd m)) of
            ChatEscalated r s i \<Rightarrow>
              (\<exists>c1. find_case uid (sp_orderId sp) (sp_productIndex sp)
                        (snd (llm_stage e now uid userObj message sp (snd m))) = Some c1
                    \<and> c_id c1 = c_id c
                    \<and> c_status c1 = (if c_status c = Resolved then Open else c_status c))
          | _ \<Rightarrow> False)"
    using llm_stage_fst [of e now uid userObj message sp "snd m"] llm_stage_status [OF fm, of e now userObj message]
    by auto
  have refund_fact: "(case fst (refund_stage e now uid message sp st) of
            ChatEscalated r s i \<Rightarrow>
              (\<exists>c1. find_case uid (sp_orderId sp) (sp_productIndex sp)
                        (snd (refund_stage e now uid message sp st)) = Some c1
                    \<and> c_id c1 = c_id c \<and> c_status c1 = Open)
          | _ \<Rightarrow> False)"
    using refund_stage_fst [of e now uid message sp st] refund_stage_status [OF found, of e now message]
    by auto
  have mem_fact: "(case fst (memory_stage e now uid message sp b sim (snd m)) of
            ChatMemory r sc l \<Rightarrow> cases (snd (memory_stage e now uid message sp b sim (snd m))) = cases st
          | _ \<Rightarrow> False)" for b sim
    by (simp add: memory_stage_def Let_def cm)
  have faq_fact: "(case fst (faq_stage now uid message sp h (snd f)) of
            ChatFaq r sc \<Rightarrow> cases (snd (faq_stage now uid message sp h (snd f))) = cases st
          | _ \<Rightarrow> False)" for h
    by (simp add: faq_stage_def Let_def f_def)
  let ?A = "automated_stages e now uid userObj message sp st"
  have chain: "?A = refund_stage e now uid message sp st \<and> isRefund message
      \<or> (\<exists>h. ?A = faq_stage now uid message sp h (snd f)) \<and> \<not> isRefund message
      \<or> (\<exists>b sim. ?A = memory_stage e now uid message sp b sim (snd m)) \<and> \<not> isRefund message
      \<or> ?A = llm_stage e now uid userObj message sp (snd m) \<and> \<not> isRefund message"
  proof -
    note eq = automated_stages_chain [of e now uid userObj message sp st, folded K_def f_def, folded m_def]
    show ?thesis
    proof (cases "isRefund message")
      case True
      then show ?thesis by (simp add: eq)
    next
      case False
      show ?thesis
      proof (cases "fst f")
        case (Inl err)
        with False show ?thesis
          by (cases "fst m") (auto simp add: eq split: list.splits)
      next
        case (Inr hit)
        with False show ?thesis
          by (cases hit; cases "fst m") (auto simp add: eq split: list.splits)
      qed
    qed
  qed
  then consider
      (refund) "?A = refund_stage e now uid message sp st" "isRefund message"
    | (faq) h where "?A = faq_stage now uid message sp h (snd f)"
    | (memory) b sim where "?A = memory_stage e now uid message sp b sim (snd m)"
    | (llm) "?A = llm_stage e now uid userObj message sp (snd m)" "\<not> isRefund message"
    by blast
  then show ?thesis
  proof cases
    case refund
    show ?thesis
      unfolding refund(1) using refund(2) \<open>case fst (refund_stage e now uid message sp st) of
            ChatEscalated r s i \<Rightarrow>
              (\<exists>c1. find_case uid (sp_orderId sp) (sp_productIndex sp)
                        (snd (refund_stage e now uid message sp st)) = Some c1
                    \<and> c_id c1 = c_id c \<and> c_status c1 = Open)
          | _ \<Rightarrow> False\<close>
      by (auto split: http.splits)
  next
    case (faq h)
    show ?thesis
      unfolding faq using faq_fact [of h] by (auto split: http.splits)
  next
    case (memory b sim)
    show ?thesis
      unfolding memory using mem_fact [of b sim] by (auto split: http.splits)
  next
    case llm
    show ?thesis
      unfolding llm(1) using llm(2) \<open>case fst (llm_stage e now uid userObj message sp (snd m)) of
            ChatEscalated r s i \<Rightarrow>
              (\<exists>c1. find_case uid (sp_orderId sp) (sp_productIndex sp)
                        (snd (llm_stage e now uid userObj message sp (snd m))) = Some c1
                    \<and> c_id c1 = c_id c
                    \<and> c_status c1 = (if c_status c = Resolved then Open else c_status c))
          | _ \<Rightarrow> False\<close>
      by (auto split: http.splits)
  qed
qed


lemma chat_existing_case_status:
  assumes msg: "message \<noteq> []" and user: "fst (load_user uid now st) = Some userObj"
    and sel: "redis_get (selected st) uid now = Some sp"
    and found: "find_case uid (sp_orderId sp) (sp_productIndex sp) st = Some c"
  shows "(case fst (chat e now uid (Some message) st) of
            ChatEscalated r s i \<Rightarrow>
              (\<exists>c1. find_case uid (sp_orderId sp) (sp_productIndex sp)
                        (snd (chat e now uid (Some message) st)) = Some c1
                    \<and> c_id c1 = c_id c
                    \<and> c_status c1 = (if isRefund message \<or> c_status c = Resolved then Open else c_status c))
          | ChatFaq r sc \<Rightarrow> cases (snd (chat e now uid (Some message) st)) = cases st
          | ChatMemory r sc l \<Rightarrow> cases (snd (chat e now uid (Some message) st)) = cases st
          | ChatQueued i \<Rightarrow> cases (snd (chat e now uid (Some message) st)) = cases st
          | _ \<Rightarrow> False)"
proof -
  let ?st1 = "snd (load_user uid now st)"
  have ens: "ensure_case now uid message sp st = (c, st)"
    using found by (rule ensure_case_existing)
  have found1: "find_case uid (sp_orderId sp) (sp_productIndex sp) ?st1 = Some c"
    using found by (simp add: find_case_def)
  have ens1: "ensure_case now uid message sp ?st1 = (c, ?st1)"
    using found1 by (rule ensure_case_existing)
  show ?thesis
  proof (cases "isAgentOnly (Some (c_id c)) now st")
    case True
    then have "chat e now uid (Some message) st = agent_only_stage now uid message sp c ?st1"
      by (simp add: chat_valid_unfold [OF msg user sel] ens ens1)
    then show ?thesis
      by (simp add: agent_only_stage_fst)
  next
    case False
    then have eq: "chat e now uid (Some message) st = automated_stages e now uid userObj message sp ?st1"
      by (simp add: chat_valid_unfold [OF msg user sel] ens ens1)
    show ?thesis
      unfolding eq using automated_stages_status [OF found1, of e now userObj message]
      by (auto split: http.splits)
  qed
qed

text \<open>
  C3 as stated fails when the message is answered from the FAQ: the FAQ stage returns
  without touching the case, which stays resolved.
\<close>

theorem C3_faq_answer_leaves_case_resolved:
  "find_case 42 ''ORD1001'' 0 (ex_state Resolved Map.empty) = Some (ex_case Resolved)
   \<and> c_status (ex_case Resolved) = Resolved
   \<and> fst (chat ex_env 1000 42 (Some ''where is my order'') (ex_state Resolved Map.empty))
       = ChatFaq ''Track it under My Orders.'' 1
   \<and> find_case 42 ''ORD1001'' 0
        (snd (chat ex_env 1000 42 (Some ''where is my order'') (ex_state Resolved Map.empty)))
       = Some (ex_case Resolved)"
proof -
  let ?st = "ex_state Resolved Map.empty"
  let ?m = "''where is my order''"
  let ?st1 = "snd (load_user 42 1000 ?st)"
  have h1: "?m \<noteq> []" by simp
  have h2: "fst (load_user 42 1000 ?st) = Some ex_user" by code_simp
  have h3: "redis_get (selected ?st) 42 1000 = Some ex_product" by code_simp
  have h4: "find_case 42 (sp_orderId ex_product) (sp_productIndex ex_product) ?st = Some (ex_case Resolved)"
    by code_simp
  have h5: "\<not> isAgentOnly (Some (c_id (ex_case Resolved))) 1000 ?st" by code_simp
  have h6: "\<not> isRefund ?m" by code_simp
  have ens: "ensure_case 1000 42 ?m ex_product ?st = (ex_case Resolved, ?st)"
    using h4 by (rule ensure_case_existing)
  have found1: "find_case 42 (sp_orderId ex_product) (sp_productIndex ex_product) ?st1 = Some (ex_case Resolved)"
    using h4 by (simp add: find_case_def)
  have ens1: "ensure_case 1000 42 ?m ex_product ?st1 = (ex_case Resolved, ?st1)"
    using found1 by (rule ensure_case_existing)
  have hit0: "fst (checkFaq ex_env ?m (Some (sp_domain ex_product)) ?st)
      = Inr (Some \<lparr>answer = ''Track it under My Orders.'', hit_score = 1\<rparr>)"
    by (simp add: checkFaq_def checkFaq_try_def getEmbedding_def Faq_find_def ex_env_def ex_state_def
        ex_faq_def ex_product_def log_call_def env_number_def matches_filter_def js_slice_to_def
        sort_by_score_desc_def js_index_def cosineSimilarity_def cosine_range_def cosine_step_def
        or0_def upt_rec slice0_def)
  have hit: "fst (checkFaq ex_env ?m (Some (sp_domain ex_product)) ?st1)
      = Inr (Some \<lparr>answer = ''Track it under My Orders.'', hit_score = 1\<rparr>)"
  proof -
    have "fst (checkFaq ex_env ?m (Some (sp_domain ex_product)) ?st1)
            = fst (checkFaq ex_env ?m (Some (sp_domain ex_product)) ?st)"
      by (rule checkFaq_fst_frame) simp_all
    with hit0 show ?thesis by (simp only:)
  qed
  have eq: "chat ex_env 1000 42 (Some ?m) ?st
      = faq_stage 1000 42 ?m ex_product \<lparr>answer = ''Track it under My Orders.'', hit_score = 1\<rparr>
          (snd (checkFaq ex_env ?m (Some (sp_domain ex_product)) ?st1))"
    using h5 h6 hit
    by (simp add: chat_valid_unfold [OF h1 h2 h3] ens ens1 automated_stages_chain)
  have c: "cases (snd (chat ex_env 1000 42 (Some ?m) ?st)) = cases ?st"
    by (simp add: eq)
  have f: "fst (chat ex_env 1000 42 (Some ?m) ?st) = ChatFaq ''Track it under My Orders.'' 1"
    by (simp add: eq faq_stage_fst)
  have v: "sp_orderId ex_product = ''ORD1001''" "sp_productIndex ex_product = 0"
    "c_status (ex_case Resolved) = Resolved"
    by (simp_all add: ex_product_def ex_case_def)
  from h4 have "find_case 42 ''ORD1001'' 0 ?st = Some (ex_case Resolved)"
    by (simp add: v)
  moreover from this c have "find_case 42 ''ORD1001'' 0 (snd (chat ex_env 1000 42 (Some ?m) ?st)) = Some (ex_case Resolved)"
    by (simp add: find_case_def)
  ultimately show ?thesis
    using f v(3) by simp
qed

text \<open>
  C3, amended. A valid chat request for a resolved case puts the case back to open when it
  is handled by the refund path or by the generative fallback (the response routed to
  \<open>cs_agent\<close>); when it is answered from the FAQ or from case memory, or queued under the
  agent-only lock, the case collection is left as it was and the case stays resolved.
\<close>

theorem C3_resolved_case_reopened_on_escalation:
  assumes "message \<noteq> []" and "fst (load_user uid now st) = Some userObj"
    and "redis_get (selected st) uid now = Some sp"
    and "find_case uid (sp_orderId sp) (sp_productIndex sp) st = Some c"
    and "c_status c = Resolved"
  shows "(case fst (chat e now uid (Some message) st) of
            ChatEscalated r s i \<Rightarrow>
              (\<exists>c1. find_case uid (sp_orderId sp) (sp_productIndex sp)
                        (snd (chat e now uid (Some message) st)) = Some c1
                    \<and> c_id c1 = c_id c \<and> c_status c1 = Open)
          | ChatFaq r sc \<Rightarrow> cases (snd (chat e now uid (Some message) st)) = cases st
          | ChatMemory r sc l \<Rightarrow> cases (snd (chat e now uid (Some message) st)) = cases st
          | ChatQueued i \<Rightarrow> cases (snd (chat e now uid (Some message) st)) = cases st
          | _ \<Rightarrow> False)"
  using chat_existing_case_status [OF assms(1) assms(2) assms(3) assms(4), of e] assms(5)
  by (auto split: http.splits)

theorem C3_resolved_case_reopened_on_escalation_witness:
  "c_status (ex_case Resolved) = Resolved
   \<and> fst (chat ex_env 1000 42 (Some ''I want a refund'') (ex_state Resolved Map.empty))
       = ChatEscalated REFUND_REPLY \<lparr>level = Express, targetMinutes = 15\<rparr> 7
   \<and> (\<exists>c1. find_case 42 ''ORD1001'' 0
               (snd (chat ex_env 1000 42 (Some ''I want a refund'') (ex_state Resolved Map.empty))) = Some c1
            \<and> c_id c1 = 7 \<and> c_status c1 = Open)"
proof -
  let ?st = "ex_state Resolved Map.empty"
  have h1: "''I want a refund'' \<noteq> []" by simp
  have h2: "fst (load_user 42 1000 ?st) = Some ex_user" by code_simp
  have h3: "redis_get (selected ?st) 42 1000 = Some ex_product" by code_simp
  have h4: "find_case 42 (sp_orderId ex_product) (sp_productIndex ex_product) ?st = Some (ex_case Resolved)"
    by code_simp
  have h5: "c_status (ex_case Resolved) = Resolved" by (simp add: ex_case_def)
  have r: "isRefund ''I want a refund''" by code_simp
  have u: "\<not> isAgentOnly (Some (c_id (fst (ensure_case 1000 42 ''I want a refund'' ex_product ?st)))) 1000 ?st"
    by code_simp
  have v: "c_id (fst (ensure_case 1000 42 ''I want a refund'' ex_product ?st)) = 7"
    "computeSLA (sla_vars ex_env) (Some High) (Some (label (analyzeSentiment ''I want a refund'')))
       = \<lparr>level = Express, targetMinutes = 15\<rparr>"
    "sp_orderId ex_product = ''ORD1001''" "sp_productIndex ex_product = 0" "c_id (ex_case Resolved) = 7"
    by code_simp+
  have f: "fst (chat ex_env 1000 42 (Some ''I want a refund'') ?st)
             = ChatEscalated REFUND_REPLY \<lparr>level = Express, targetMinutes = 15\<rparr> 7"
    using chat_refund_path(1) [OF h1 h2 h3 r u, of ex_env] by (simp only: v)
  from C3_resolved_case_reopened_on_escalation [OF h1 h2 h3 h4 h5, of ex_env] f h5 show ?thesis
    by (simp add: v)
qed

section \<open>Case memory: indexing is an upsert\<close>

lemma upsert_memory_same:
  "distinct (map m_caseId ms) \<Longrightarrow> filter (\<lambda>m. m_caseId m = m_caseId r) (upsert_memory r ms) = [r]"
proof (induction ms)
  case Nil
  then show ?case by simp
next
  case (Cons m ms)
  show ?case
  proof (cases "m_caseId m = m_caseId r")
    case True
    with Cons.prems have "m_caseId r \<notin> m_caseId ` set ms" by simp
    then have "\<forall>x \<in> set ms. m_caseId x \<noteq> m_caseId r"
      by (metis imageI)
    then have "filter (\<lambda>x. m_caseId x = m_caseId r) ms = []"
      by (simp add: filter_empty_conv)
    with True show ?thesis by simp
  next
    case False
    with Cons show ?thesis by simp
  qed
qed

lemma upsert_memory_others:
  "filter (\<lambda>m. m_caseId m \<noteq> m_caseId r) (upsert_memory r ms)
     = filter (\<lambda>m. m_caseId m \<noteq> m_caseId r) ms"
  by (induction ms) auto

lemma upsert_memory_length:
  "length (upsert_memory r ms)
     = (if m_caseId r \<in> set (map m_caseId ms) then length ms else Suc (length ms))"
  by (induction ms) auto

lemma upsert_memory_ids:
  "set (map m_caseId (upsert_memory r ms)) = insert (m_caseId r) (set (map m_caseId ms))"
  by (induction ms) auto

lemma upsert_memory_distinct:
  "distinct (map m_caseId ms) \<Longrightarrow> distinct (map m_caseId (upsert_memory r ms))"
proof (induction ms)
  case Nil
  then show ?case by simp
next
  case (Cons m ms)
  then show ?case
    using upsert_memory_ids [of r ms] by (auto simp del: set_map)
qed

lemma distinct_count_le_1:
  "distinct (map f xs) \<Longrightarrow> length (filter (\<lambda>x. f x = i) xs) \<le> 1"
proof (induction xs)
  case Nil
  then show ?case by simp
next
  case (Cons x xs)
  have "filter (\<lambda>y. f y = i) xs = []" if "f x = i"
  proof -
    from Cons.prems that have "i \<notin> f ` set xs" by simp
    then show ?thesis by (auto simp: filter_empty_conv)
  qed
  with Cons show ?case by auto
qed

text \<open>What one call of \<open>indexCase\<close> does to the collection.\<close>

lemma indexCase_memories:
  "memories (indexCase e now (Some c) st)
     = (if index_succeeds e c st
        then upsert_memory
               (indexed_record now c (the (embedding_api e (trace st @ [IndexCase (c_id c)]) (index_text c))))
               (memories st)
        else memories st)"
  by (simp add: indexCase_def indexCase_try_def getEmbedding_def CaseMemory_findOneAndUpdate_def
      log_call_def index_succeeds_def indexed_record_def Let_def split: option.splits)

lemma index_succeeds_iff:
  "index_succeeds e c st \<longleftrightarrow> fst (indexCase_try e now c (log_call (IndexCase (c_id c)) st)) = Inr ()"
  by (simp add: indexCase_try_def getEmbedding_def CaseMemory_findOneAndUpdate_def
      log_call_def index_succeeds_def Let_def split: option.splits)

lemma indexed_record_id [simp]: "m_caseId (indexed_record now c v) = c_id c"
  by (simp add: indexed_record_def)

lemma indexCase_distinct:
  assumes "distinct (map m_caseId (memories st))"
  shows "distinct (map m_caseId (memories (indexCase e now (Some c) st)))"
  using assms by (simp add: indexCase_memories upsert_memory_distinct)

lemma indexCase_others:
  "filter (\<lambda>m. m_caseId m \<noteq> c_id c) (memories (indexCase e now (Some c) st))
     = filter (\<lambda>m. m_caseId m \<noteq> c_id c) (memories st)"
  using upsert_memory_others
    [of "indexed_record now c (the (embedding_api e (trace st @ [IndexCase (c_id c)]) (index_text c)))" "memories st"]
  by (simp add: indexCase_memories)

lemma indexCase_success_record:
  assumes "distinct (map m_caseId (memories st))" and "index_succeeds e c st"
  shows "filter (\<lambda>m. m_caseId m = c_id c) (memories (indexCase e now (Some c) st))
           = [indexed_record now c (the (embedding_api e (trace st @ [IndexCase (c_id c)]) (index_text c)))]"
  using upsert_memory_same [OF assms(1),
      of "indexed_record now c (the (embedding_api e (trace st @ [IndexCase (c_id c)]) (index_text c)))"]
    assms(2)
  by (simp add: indexCase_memories)

lemma indexCase_failure: "\<not> index_succeeds e c st \<Longrightarrow> memories (indexCase e now (Some c) st) = memories st"
  by (simp add: indexCase_memories)

lemma indexCase_no_duplicate:
  assumes "c_id c \<in> set (map m_caseId (memories st))"
  shows "length (memories (indexCase e now (Some c) st)) = length (memories st)"
  using assms by (simp add: indexCase_memories upsert_memory_length)

lemma indexCase_success_present:
  assumes "index_succeeds e c st"
  shows "c_id c \<in> set (map m_caseId (memories (indexCase e now (Some c) st)))"
  using assms upsert_memory_ids
    [of "indexed_record now c (the (embedding_api e (trace st @ [IndexCase (c_id c)]) (index_text c)))" "memories st"]
  by (simp add: indexCase_memories del: set_map)

text \<open>
  C9 as stated fails when the embedding service is down: both calls swallow the error and
  no record is left for the case.
\<close>

theorem C9_no_record_when_embedding_down:
  "distinct (map m_caseId (memories (ex_state Open Map.empty)))
   \<and> length (filter (\<lambda>m. m_caseId m = c_id (ex_case Open))
        (memories (indexCase ex_env_down 1001 (Some (ex_case Open))
                     (indexCase ex_env_down 1000 (Some (ex_case Open)) (ex_state Open Map.empty))))) = 0"
  by code_simp

text \<open>
  C9, amended. On a collection that respects the unique index on \<open>caseId\<close>, call
  \<open>indexCase\<close> twice with the same case. If the second call goes through, the collection
  holds exactly one record with that case id, and it is the document of the second call
  (the case's ids, summary text and domain, the second embedding, the second instant): an
  existing record is overwritten, not duplicated. If only the first call goes through, the
  one record is the document of the first call and the second call changes nothing. If
  neither goes through, the collection is as it was. In every case the second call adds
  no record once the first went through, the records of other cases are untouched, and
  there is never more than one record for the case.
\<close>

theorem C9_indexCase_twice_upserts:
  assumes "distinct (map m_caseId (memories st))"
  shows "(index_succeeds e c (indexCase e now1 (Some c) st)
            \<longrightarrow> filter (\<lambda>m. m_caseId m = c_id c)
                  (memories (indexCase e now2 (Some c) (indexCase e now1 (Some c) st)))
                = [indexed_record now2 c
                     (the (embedding_api e
                             (trace (indexCase e now1 (Some c) st) @ [IndexCase (c_id c)]) (index_text c)))])
     \<and> (index_succeeds e c st \<and> \<not> index_succeeds e c (indexCase e now1 (Some c) st)
            \<longrightarrow> filter (\<lambda>m. m_caseId m = c_id c)
                  (memories (indexCase e now2 (Some c) (indexCase e now1 (Some c) st)))
                = [indexed_record now1 c
                     (the (embedding_api e (trace st @ [IndexCase (c_id c)]) (index_text c)))]
              \<and> memories (indexCase e now2 (Some c) (indexCase e now1 (Some c) st))
                  = memories (indexCase e now1 (Some c) st))
     \<and> (\<not> index_succeeds e c st \<and> \<not> index_succeeds e c (indexCase e now1 (Some c) st)
            \<longrightarrow> memories (indexCase e now2 (Some c) (indexCase e now1 (Some c) st)) = memories st)
     \<and> (index_succeeds e c st
            \<longrightarrow> length (memories (indexCase e now2 (Some c) (indexCase e now1 (Some c) st)))
                = length (memories (indexCase e now1 (Some c) st)))
     \<and> filter (\<lambda>m. m_caseId m \<noteq> c_id c)
          (memories (indexCase e now2 (Some c) (indexCase e now1 (Some c) st)))
         = filter (\<lambda>m. m_caseId m \<noteq> c_id c) (memories st)
     \<and> length (filter (\<lambda>m. m_caseId m = c_id c)
          (memories (indexCase e now2 (Some c) (indexCase e now1 (Some c) st)))) \<le> 1"
proof -
  let ?st1 = "indexCase e now1 (Some c) st"
  let ?st2 = "indexCase e now2 (Some c) ?st1"
  have d1: "distinct (map m_caseId (memories ?st1))"
    using assms by (rule indexCase_distinct)
  have d2: "distinct (map m_caseId (memories ?st2))"
    using d1 by (rule indexCase_distinct)
  have a: "filter (\<lambda>m. m_caseId m = c_id c) (memories ?st2)
             = [indexed_record now2 c
                  (the (embedding_api e (trace ?st1 @ [IndexCase (c_id c)]) (index_text c)))]"
    if "index_succeeds e c ?st1"
    using d1 that by (rule indexCase_success_record)
  have b: "filter (\<lambda>m. m_caseId m = c_id c) (memories ?st2)
             = [indexed_record now1 c
                  (the (embedding_api e (trace st @ [IndexCase (c_id c)]) (index_text c)))]
           \<and> memories ?st2 = memories ?st1"
    if "index_succeeds e c st" and "\<not> index_succeeds e c ?st1"
    using indexCase_success_record [OF assms that(1), of now1] indexCase_failure [OF that(2), of now2]
    by simp
  have c: "memories ?st2 = memories st"
    if "\<not> index_succeeds e c st" and "\<not> index_succeeds e c ?st1"
    using indexCase_failure [OF that(1), of now1] indexCase_failure [OF that(2), of now2]
    by simp
  have d: "length (memories ?st2) = length (memories ?st1)" if "index_succeeds e c st"
    using indexCase_success_present [OF that, of now1] by (rule indexCase_no_duplicate)
  have e: "filter (\<lambda>m. m_caseId m \<noteq> c_id c) (memories ?st2)
             = filter (\<lambda>m. m_caseId m \<noteq> c_id c) (memories st)"
    by (simp add: indexCase_others)
  have f: "length (filter (\<lambda>m. m_caseId m = c_id c) (memories ?st2)) \<le> 1"
    using d2 by (rule distinct_count_le_1)
  from a b c d e f show ?thesis by blast
qed

theorem C9_indexCase_twice_upserts_witness:
  "filter (\<lambda>m. m_caseId m = 7)
      (memories (indexCase ex_env 1001 (Some (ex_case Open))
                   (indexCase ex_env 1000 (Some (ex_case Open)) (ex_state Open Map.empty))))
     = [\<lparr>m_caseId = 7, m_orderId = ''ORD1001'', m_productIndex = 0,
         m_summary = ''Item arrived damaged'', m_domain = ECommerce, m_embedding = [1, 0],
         m_createdAt = 1001\<rparr>]
   \<and> filter (\<lambda>m. m_caseId m = 7)
      (memories (indexCase ex_env_flaky 1001 (Some (ex_case Open))
                   (indexCase ex_env_flaky 1000 (Some (ex_case Open)) (ex_state Open Map.empty))))
     = [\<lparr>m_caseId = 7, m_orderId = ''ORD1001'', m_productIndex = 0,
         m_summary = ''Item arrived damaged'', m_domain = ECommerce, m_embedding = [1, 0],
         m_createdAt = 1000\<rparr>]
   \<and> memories (indexCase ex_env_down 1001 (Some (ex_case Open))
                   (indexCase ex_env_down 1000 (Some (ex_case Open)) (ex_state Open Map.empty)))
     = []
   \<and> length (memories (indexCase ex_env 1001 (Some (ex_case Open))
                   (indexCase ex_env 1000 (Some (ex_case Open)) (ex_state Open Map.empty)))) = 1"
proof -
  let ?st = "ex_state Open Map.empty"
  let ?c = "ex_case Open"
  have h: "distinct (map m_caseId (memories ?st))" by code_simp
  have ok: "index_succeeds ex_env ?c ?st" "index_succeeds ex_env ?c (indexCase ex_env 1000 (Some ?c) ?st)"
    by code_simp+
  have flaky: "index_succeeds ex_env_flaky ?c ?st"
    "\<not> index_succeeds ex_env_flaky ?c (indexCase ex_env_flaky 1000 (Some ?c) ?st)"
    by code_simp+
  have down: "\<not> index_succeeds ex_env_down ?c ?st"
    "\<not> index_succeeds ex_env_down ?c (indexCase ex_env_down 1000 (Some ?c) ?st)"
    by code_simp+
  have v1: "c_id ?c = 7" by code_simp
  have v2: "indexed_record 1001 ?c
       (the (embedding_api ex_env (trace (indexCase ex_env 1000 (Some ?c) ?st) @ [IndexCase (c_id ?c)])
              (index_text ?c)))
      = \<lparr>m_caseId = 7, m_orderId = ''ORD1001'', m_productIndex = 0,
         m_summary = ''Item arrived damaged'', m_domain = ECommerce, m_embedding = [1, 0],
         m_createdAt = 1001\<rparr>"
    by code_simp
  have v3: "indexed_record 1000 ?c
       (the (embedding_api ex_env_flaky (trace ?st @ [IndexCase (c_id ?c)]) (index_text ?c)))
      = \<lparr>m_caseId = 7, m_orderId = ''ORD1001'', m_productIndex = 0,
         m_summary = ''Item arrived damaged'', m_domain = ECommerce, m_embedding = [1, 0],
         m_createdAt = 1000\<rparr>"
    by code_simp
  have v4: "memories ?st = []" by code_simp
  have v5: "length (memories (indexCase ex_env 1000 (Some ?c) ?st)) = 1" by code_simp
  from C9_indexCase_twice_upserts [OF h, of ex_env ?c 1000 1001] ok
  have r1: "filter (\<lambda>m. m_caseId m = c_id ?c)
               (memories (indexCase ex_env 1001 (Some ?c) (indexCase ex_env 1000 (Some ?c) ?st)))
            = [indexed_record 1001 ?c
                 (the (embedding_api ex_env
                         (trace (indexCase ex_env 1000 (Some ?c) ?st) @ [IndexCase (c_id ?c)]) (index_text ?c)))]"
    and r4: "length (memories (indexCase ex_env 1001 (Some ?c) (indexCase ex_env 1000 (Some ?c) ?st)))
            = length (memories (indexCase ex_env 1000 (Some ?c) ?st))"
    by blast+
  from C9_indexCase_twice_upserts [OF h, of ex_env_flaky ?c 1000 1001] flaky
  have r2: "filter (\<lambda>m. m_caseId m = c_id ?c)
               (memories (indexCase ex_env_flaky 1001 (Some ?c) (indexCase ex_env_flaky 1000 (Some ?c) ?st)))
            = [indexed_record 1000 ?c
                 (the (embedding_api ex_env_flaky (trace ?st @ [IndexCase (c_id ?c)]) (index_text ?c)))]"
    by blast
  from C9_indexCase_twice_upserts [OF h, of ex_env_down ?c 1000 1001] down
  have r3: "memories (indexCase ex_env_down 1001 (Some ?c) (indexCase ex_env_down 1000 (Some ?c) ?st))
            = memories ?st"
    by blast
  from r1 [unfolded v2, unfolded v1] r2 [unfolded v3, unfolded v1] r3 [unfolded v4] r4 [unfolded v5]
  show ?thesis by (intro conjI)
qed

end
